theory Spec2Isabelle
  imports Complex_Main "HOL-Library.Word" "HOL-Library.Sublist"
begin

text \<open>
  convert.py walks a dataset, finds the FLAIR and DWI volumes, rescales their intensities
  to eight bits and writes every axial, coronal and sagittal slice as a picture. The
  theory follows the file: the arrays and the normalization first, then the strings and
  paths, the effects on the outside world, slice_image and process_dataset.
\<close>

section \<open>Volumes and images\<close>

text \<open>
  A NumPy array of three axes is its shape together with its samples in row-major (C)
  order, which is how NumPy stores the array that \<^verbatim>\<open>GetArrayFromImage\<close> returns:
  the sample at index \<open>(i, j, k)\<close> of an array of shape \<open>(D, H, W)\<close> is entry
  \<open>i * H * W + j * W + k\<close> of the data.
\<close>

text \<open>
  The sample type of an array: a signed or unsigned integer type of the given number of
  bits (\<^verbatim>\<open>int16\<close> is \<open>SignedInt 16\<close>), or a floating-point type.
\<close>

datatype np_dtype = SignedInt nat | UnsignedInt nat | Floating

record 'a volume =
  dtype :: np_dtype
  shape0 :: nat
  shape1 :: nat
  shape2 :: nat
  data :: "'a list"

definition wf_volume :: "'a volume \<Rightarrow> bool" where
  "wf_volume v = (0 < shape0 v \<and> 0 < shape1 v \<and> 0 < shape2 v \<and>
     length (data v) = shape0 v * shape1 v * shape2 v)"

definition at3 :: "'a volume \<Rightarrow> nat \<Rightarrow> nat \<Rightarrow> nat \<Rightarrow> 'a" where
  "at3 v i j k = data v ! (i * shape1 v * shape2 v + j * shape2 v + k)"

text \<open>A two-dimensional array (one slice, one written picture) is the list of its rows.\<close>

type_synonym 'a image = "'a list list"

definition has_shape :: "'a image \<Rightarrow> nat \<Rightarrow> nat \<Rightarrow> bool" where
  "has_shape img r c = (length img = r \<and> list_all (\<lambda>row. length row = c) img)"

text \<open>\<^verbatim>\<open>np_image[i, :, :]\<close>, \<^verbatim>\<open>np_image[:, i, :]\<close> and \<^verbatim>\<open>np_image[:, :, i]\<close>.\<close>

definition axial_slice :: "'a volume \<Rightarrow> nat \<Rightarrow> 'a image" where
  "axial_slice v i = map (\<lambda>j. map (\<lambda>k. at3 v i j k) [0..<shape2 v]) [0..<shape1 v]"

definition coronal_slice :: "'a volume \<Rightarrow> nat \<Rightarrow> 'a image" where
  "coronal_slice v i = map (\<lambda>d. map (\<lambda>k. at3 v d i k) [0..<shape2 v]) [0..<shape0 v]"

definition sagittal_slice :: "'a volume \<Rightarrow> nat \<Rightarrow> 'a image" where
  "sagittal_slice v i = map (\<lambda>d. map (\<lambda>j. at3 v d j i) [0..<shape1 v]) [0..<shape0 v]"

section \<open>Exceptions\<close>

datatype exn =
    ReadError string          \<comment> \<open>\<^verbatim>\<open>sitk.ReadImage\<close> could not read the file\<close>
  | ZeroSizeArray             \<comment> \<open>\<^verbatim>\<open>np.min\<close> of an array without elements (ValueError)\<close>
  | DirExistsError string     \<comment> \<open>\<^verbatim>\<open>os.mkdir\<close> of a directory that exists\<close>
  | MkdirError string         \<comment> \<open>any other OSError of \<^verbatim>\<open>os.mkdir\<close> (no permission, a file in the way)\<close>
  | SaveError string          \<comment> \<open>\<^verbatim>\<open>Image.save\<close> failed\<close>

section \<open>Intensity normalization (lines 26 to 34 of convert.py)\<close>

text \<open>
  Samples are rational numbers (whole numbers for an integer sample type). The two
  subtractions of lines 28 and 29 run in the sample type of the array: in a signed integer
  type of \<open>w\<close> bits the difference wraps around into the range from \<open>-2^(w-1)\<close>
  to \<open>2^(w-1) - 1\<close>, in an unsigned one into the range from 0 to \<open>2^w - 1\<close>, and
  in a floating-point type it is rounded. The division and the multiplication by 255.0
  run in floating point. The rounding of the floating-point format is the parameter
  \<open>fl\<close>; with \<open>fl = (\<lambda>x. x)\<close> it is exact. Not-a-number and infinities are not
  modelled.
\<close>

definition np_min :: "rat list \<Rightarrow> exn + rat" where
  "np_min xs = (case xs of [] \<Rightarrow> Inl ZeroSizeArray | x # ys \<Rightarrow> Inr (fold min ys x))"

definition np_max :: "rat list \<Rightarrow> exn + rat" where
  "np_max xs = (case xs of [] \<Rightarrow> Inl ZeroSizeArray | x # ys \<Rightarrow> Inr (fold max ys x))"

text \<open>\<open>a - b\<close> computed in the sample type \<open>t\<close>.\<close>

definition dtype_sub :: "(rat \<Rightarrow> rat) \<Rightarrow> np_dtype \<Rightarrow> rat \<Rightarrow> rat \<Rightarrow> rat" where
  "dtype_sub fl t a b =
     (case t of
        SignedInt w \<Rightarrow> of_int (signed_take_bit (w - 1) (\<lfloor>a\<rfloor> - \<lfloor>b\<rfloor>))
      | UnsignedInt w \<Rightarrow> of_int (take_bit w (\<lfloor>a\<rfloor> - \<lfloor>b\<rfloor>))
      | Floating \<Rightarrow> fl (a - b))"

text \<open>The value of one sample after line 29.\<close>

definition rescale :: "(rat \<Rightarrow> rat) \<Rightarrow> np_dtype \<Rightarrow> rat \<Rightarrow> rat \<Rightarrow> rat \<Rightarrow> rat" where
  "rescale fl t min_val max_val v =
     fl (fl (dtype_sub fl t v min_val / dtype_sub fl t max_val min_val) * 255)"

text \<open>
  \<^verbatim>\<open>astype(np.uint8)\<close> of a floating-point value drops the fraction (towards zero) and
  keeps the low eight bits of the integer.
\<close>

definition trunc_zero :: "rat \<Rightarrow> int" where
  "trunc_zero x = (if 0 \<le> x then \<lfloor>x\<rfloor> else \<lceil>x\<rceil>)"

definition astype_uint8 :: "rat \<Rightarrow> 8 word" where
  "astype_uint8 x = word_of_int (trunc_zero x)"

definition normalize_volume :: "(rat \<Rightarrow> rat) \<Rightarrow> rat volume \<Rightarrow> exn + 8 word volume" where
  "normalize_volume fl np_image =
     (case np_min (data np_image) of
        Inl e \<Rightarrow> Inl e
      | Inr min_val \<Rightarrow>
          (case np_max (data np_image) of
             Inl e \<Rightarrow> Inl e
           | Inr max_val \<Rightarrow>
               Inr \<lparr> dtype = UnsignedInt 8,
                     shape0 = shape0 np_image, shape1 = shape1 np_image,
                     shape2 = shape2 np_image,
                     data = map astype_uint8
                       (if 0 < dtype_sub fl (dtype np_image) max_val min_val
                        then map (rescale fl (dtype np_image) min_val max_val) (data np_image)
                        else map (\<lambda>_. 0) (data np_image)) \<rparr>))"



text \<open>A sample is a value of the sample type: a whole number in range for an integer type.\<close>

definition in_dtype :: "np_dtype \<Rightarrow> rat \<Rightarrow> bool" where
  "in_dtype t x =
     (case t of
        SignedInt w \<Rightarrow> of_int \<lfloor>x\<rfloor> = x \<and> - (2 ^ (w - 1)) \<le> x \<and> x < 2 ^ (w - 1)
      | UnsignedInt w \<Rightarrow> of_int \<lfloor>x\<rfloor> = x \<and> 0 \<le> x \<and> x < 2 ^ w
      | Floating \<Rightarrow> True)"


section \<open>Strings and paths\<close>

type_synonym path = string

text \<open>\<^verbatim>\<open>s.split(os.sep)\<close> on a POSIX system: the pieces between the separators.\<close>

fun split_sep :: "string \<Rightarrow> string list" where
  "split_sep [] = [[]]"
| "split_sep (c # cs) =
     (if c = CHR ''/'' then [] # split_sep cs
      else (case split_sep cs of [] \<Rightarrow> [[c]] | w # ws \<Rightarrow> (c # w) # ws))"

text \<open>\<^verbatim>\<open>s.endswith(suf)\<close>: the last \<open>len(suf)\<close> characters of \<open>s\<close> are \<open>suf\<close>.\<close>

definition endswith :: "string \<Rightarrow> string \<Rightarrow> bool" where
  "endswith s suf = (length suf \<le> length s \<and> drop (length s - length suf) s = suf)"

text \<open>
  \<^verbatim>\<open>s.replace(old, new)\<close>: every occurrence of \<open>old\<close>, found from the left without
  overlaps, becomes \<open>new\<close>. (An empty \<open>old\<close> matches before every character and at the
  end.)
\<close>

function str_replace :: "string \<Rightarrow> string \<Rightarrow> string \<Rightarrow> string" where
  "str_replace old new s =
     (if old = [] then new @ concat (map (\<lambda>c. c # new) s)
      else if s = [] then []
      else if take (length old) s = old
        then new @ str_replace old new (drop (length old) s)
      else hd s # str_replace old new (tl s))"
  by pat_completeness auto
termination
  by (relation "measure (\<lambda>(old, new, s). length s)") auto

text \<open>\<^verbatim>\<open>os.path.join(a, b)\<close> of posixpath.\<close>

definition path_join :: "path \<Rightarrow> path \<Rightarrow> path" where
  "path_join a b =
     (if b \<noteq> [] \<and> hd b = CHR ''/'' then b
      else if a = [] \<or> last a = CHR ''/'' then a @ b
      else a @ ''/'' @ b)"

text \<open>The format \<^verbatim>\<open>{i:03d}\<close>: the decimal digits, filled with zeros on the left to three.\<close>

definition digit_char :: "nat \<Rightarrow> char" where
  "digit_char d = char_of (48 + d)"

fun str_nat :: "nat \<Rightarrow> string" where
  "str_nat n = (if n < 10 then [digit_char n] else str_nat (n div 10) @ [digit_char (n mod 10)])"

definition fmt_03d :: "nat \<Rightarrow> string" where
  "fmt_03d i = replicate (3 - length (str_nat i)) CHR ''0'' @ str_nat i"

definition slice_name :: "nat \<Rightarrow> string" where
  "slice_name i = ''slice_'' @ fmt_03d i @ ''.png''"

text \<open>Reading a decimal numeral back, to say what the digits of a name mean.\<close>

definition digit_val :: "char \<Rightarrow> nat" where
  "digit_val c = of_char c - 48"

definition nat_of_digits :: "string \<Rightarrow> nat" where
  "nat_of_digits ds = foldl (\<lambda>acc c. 10 * acc + digit_val c) 0 ds"

section \<open>The world outside the program\<close>

text \<open>
  What the program prints and writes, in order: one constructor per \<^verbatim>\<open>print\<close> of
  convert.py, and \<open>Saved\<close> for a picture that \<^verbatim>\<open>img.save\<close> has written.
\<close>

datatype event =
    MsgNotFound path          \<comment> \<open>line 80, on stderr\<close>
  | MsgStart path             \<comment> \<open>line 83\<close>
  | MsgOutput path            \<comment> \<open>line 84\<close>
  | MsgFound path             \<comment> \<open>line 97\<close>
  | MsgSliced path            \<comment> \<open>line 65\<close>
  | MsgError path exn         \<comment> \<open>line 68, on stderr\<close>
  | MsgComplete               \<comment> \<open>line 114\<close>
  | Saved path "8 word image"

text \<open>
  The library calls whose results the program only reads are parameters: the input tree
  (\<^verbatim>\<open>os.path.isdir\<close>, the pairs of directory and file names that \<^verbatim>\<open>os.walk\<close> yields,
  \<^verbatim>\<open>os.path.relpath\<close>), the reader (\<^verbatim>\<open>sitk.ReadImage\<close> followed by
  \<^verbatim>\<open>GetArrayFromImage\<close>, for a file that holds three axes), the rounding of the
  floating-point arithmetic, and the paths where the operating system refuses to create a
  directory or to write a file.
\<close>

record env =
  os_isdir :: "path \<Rightarrow> bool"
  os_walk :: "path \<Rightarrow> (path \<times> string list) list"
  os_relpath :: "path \<Rightarrow> path \<Rightarrow> path"
  sitk_read :: "path \<Rightarrow> exn + rat volume"
  fl_round :: "rat \<Rightarrow> rat"
  mkdir_fails :: "path \<Rightarrow> bool"
  save_fails :: "path \<Rightarrow> bool"

text \<open>
  A command runs on the set of directories that exist and returns the exception it raised
  (if any), the events it produced, and the directories that exist afterwards.
\<close>

type_synonym cmd = "path set \<Rightarrow> exn option \<times> event list \<times> path set"

definition skip :: cmd where
  "skip s = (None, [], s)"

definition raise :: "exn \<Rightarrow> cmd" where
  "raise e s = (Some e, [], s)"

definition emit :: "event \<Rightarrow> cmd" where
  "emit ev s = (None, [ev], s)"

definition seq :: "cmd \<Rightarrow> cmd \<Rightarrow> cmd" where
  "seq c1 c2 s =
     (case c1 s of
        (Some e, ev1, s1) \<Rightarrow> (Some e, ev1, s1)
      | (None, ev1, s1) \<Rightarrow> (case c2 s1 of (r, ev2, s2) \<Rightarrow> (r, ev1 @ ev2, s2)))"

fun foreach :: "'a list \<Rightarrow> ('a \<Rightarrow> cmd) \<Rightarrow> cmd" where
  "foreach [] body = skip"
| "foreach (x # xs) body = seq (body x) (foreach xs body)"

definition try_except :: "cmd \<Rightarrow> (exn \<Rightarrow> cmd) \<Rightarrow> cmd" where
  "try_except c handler s =
     (case c s of
        (None, ev1, s1) \<Rightarrow> (None, ev1, s1)
      | (Some e, ev1, s1) \<Rightarrow> (case handler e s1 of (r, ev2, s2) \<Rightarrow> (r, ev1 @ ev2, s2)))"

subsection \<open>Directories and files\<close>

definition os_mkdir :: "env \<Rightarrow> path \<Rightarrow> cmd" where
  "os_mkdir env name s =
     (if name \<in> s then (Some (DirExistsError name), [], s)
      else if mkdir_fails env name then (Some (MkdirError name), [], s)
      else (None, [], insert name s))"

text \<open>The directories above a path: its prefixes that end just before a separator.\<close>

definition ancestors :: "path \<Rightarrow> path list" where
  "ancestors name =
     map (\<lambda>i. take i name)
       (filter (\<lambda>i. name ! i = CHR ''/'' \<and> name ! (i - 1) \<noteq> CHR ''/'') [1..<length name])"

text \<open>
  \<^verbatim>\<open>os.makedirs(name, exist_ok=...)\<close>: the missing directories above \<open>name\<close> are created
  from the top, then \<open>name\<close> itself; that \<open>name\<close> exists already is an error only without
  \<open>exist_ok\<close>.
\<close>

definition makedirs :: "env \<Rightarrow> path \<Rightarrow> bool \<Rightarrow> cmd" where
  "makedirs env name exist_ok =
     seq (foreach (ancestors name) (\<lambda>a s. if a \<in> s then skip s else os_mkdir env a s))
         (\<lambda>s. case os_mkdir env name s of
                 (Some e, ev, s') \<Rightarrow>
                   if \<not> exist_ok \<or> name \<notin> s' then (Some e, ev, s') else (None, ev, s')
               | (None, ev, s') \<Rightarrow> (None, ev, s'))"

definition save :: "env \<Rightarrow> path \<Rightarrow> 8 word image \<Rightarrow> cmd" where
  "save env p img s =
     (if save_fails env p then (Some (SaveError p), [], s) else (None, [Saved p img], s))"

text \<open>The files on disk after a run: each \<open>Saved\<close> event overwrites its path.\<close>

fun apply_saves :: "event list \<Rightarrow> (path \<rightharpoonup> 8 word image) \<Rightarrow> (path \<rightharpoonup> 8 word image)" where
  "apply_saves [] fm = fm"
| "apply_saves (Saved p img # evs) fm = apply_saves evs (fm(p \<mapsto> img))"
| "apply_saves (_ # evs) fm = apply_saves evs fm"

section \<open>slice_image (lines 7 to 68 of convert.py)\<close>

definition default_planes :: "string list" where
  "default_planes = [''axial'', ''coronal'', ''sagittal'']"

text \<open>The body of the loop over the planes, lines 38 to 63.\<close>

definition slice_plane :: "env \<Rightarrow> path \<Rightarrow> 8 word volume \<Rightarrow> string \<Rightarrow> cmd" where
  "slice_plane env output_dir_base np_image plane =
     (let plane_output_dir = path_join output_dir_base plane in
      seq (makedirs env plane_output_dir True)
        (if plane = ''axial'' then
           foreach [0..<shape0 np_image]
             (\<lambda>i. save env (path_join plane_output_dir (slice_name i)) (axial_slice np_image i))
         else if plane = ''coronal'' then
           foreach [0..<shape1 np_image]
             (\<lambda>i. save env (path_join plane_output_dir (slice_name i)) (coronal_slice np_image i))
         else if plane = ''sagittal'' then
           foreach [0..<shape2 np_image]
             (\<lambda>i. save env (path_join plane_output_dir (slice_name i)) (sagittal_slice np_image i))
         else skip))"

text \<open>The body of the \<^verbatim>\<open>try\<close>, lines 17 to 65.\<close>

definition slice_image_body :: "env \<Rightarrow> path \<Rightarrow> path \<Rightarrow> string list \<Rightarrow> cmd" where
  "slice_image_body env input_path output_dir_base planes =
     (case sitk_read env input_path of
        Inl e \<Rightarrow> raise e
      | Inr vol \<Rightarrow>
          (case normalize_volume (fl_round env) vol of
             Inl e \<Rightarrow> raise e
           | Inr np_image \<Rightarrow>
               seq (foreach planes (slice_plane env output_dir_base np_image))
                   (emit (MsgSliced output_dir_base))))"

definition slice_image :: "env \<Rightarrow> path \<Rightarrow> path \<Rightarrow> string list \<Rightarrow> cmd" where
  "slice_image env input_path output_dir_base planes =
     try_except (slice_image_body env input_path output_dir_base planes)
       (\<lambda>e. emit (MsgError input_path e))"

section \<open>process_dataset (lines 71 to 114 of convert.py)\<close>

definition is_flair :: "path \<Rightarrow> string \<Rightarrow> bool" where
  "is_flair root_dir filename =
     (''anat'' \<in> set (split_sep root_dir) \<and> endswith filename ''_FLAIR.nii.gz'')"

definition is_dwi :: "path \<Rightarrow> string \<Rightarrow> bool" where
  "is_dwi root_dir filename =
     (''dwi'' \<in> set (split_sep root_dir) \<and> endswith filename ''_dwi.nii.gz'')"

text \<open>Lines 101 to 107: the folder that receives the slices of one file.\<close>

definition slice_folder :: "env \<Rightarrow> path \<Rightarrow> path \<Rightarrow> path \<Rightarrow> string \<Rightarrow> path" where
  "slice_folder env input_root output_root root_dir filename =
     (let relative_path = os_relpath env root_dir input_root;
          output_path_dir = path_join output_root relative_path;
          base_filename = str_replace ''.nii.gz'' [] filename
      in path_join output_path_dir (base_filename @ ''_slices''))"

text \<open>The body of the loop over the file names, lines 90 to 112.\<close>

definition process_file :: "env \<Rightarrow> path \<Rightarrow> path \<Rightarrow> path \<Rightarrow> string \<Rightarrow> cmd" where
  "process_file env input_root output_root root_dir filename =
     (let file_path = path_join root_dir filename in
      if is_flair root_dir filename \<or> is_dwi root_dir filename then
        seq (emit (MsgFound file_path))
          (let slice_output_folder = slice_folder env input_root output_root root_dir filename
           in seq (makedirs env slice_output_folder True)
                  (slice_image env file_path slice_output_folder default_planes))
      else skip)"

definition process_dataset :: "env \<Rightarrow> path \<Rightarrow> path \<Rightarrow> cmd" where
  "process_dataset env input_root output_root =
     (if \<not> os_isdir env input_root then emit (MsgNotFound input_root)
      else
        seq (emit (MsgStart input_root))
       (seq (emit (MsgOutput output_root))
       (seq (foreach (os_walk env input_root)
               (\<lambda>(root_dir, files). foreach files (process_file env input_root output_root root_dir)))
            (emit MsgComplete))))"

section \<open>Notions of the specification\<close>

text \<open>\<^verbatim>\<open>'/'.join(parts)\<close>, to say what the pieces of a path are.\<close>

fun join_sep :: "string list \<Rightarrow> string" where
  "join_sep [] = []"
| "join_sep [w] = w"
| "join_sep (w # ws) = w @ ''/'' @ join_sep ws"

text \<open>
  The file name without its \<^verbatim>\<open>.nii.gz\<close> suffix, as the specification names the folder
  of a volume.
\<close>

definition strip_nii_gz :: "string \<Rightarrow> string" where
  "strip_nii_gz filename = take (length filename - length ''.nii.gz'') filename"

section \<open>Example inputs\<close>


definition vol_uniform :: "rat volume" where
  "vol_uniform = \<lparr> dtype = SignedInt 16, shape0 = 2, shape1 = 2, shape2 = 3, data = replicate 12 100 \<rparr>"


text \<open>
  A small volume of shape (2, 1, 2), and a dataset with one FLAIR file and one DWI file
  that cannot be read; nothing fails on the output side.
\<close>

definition vol_small :: "rat volume" where
  "vol_small = \<lparr> dtype = SignedInt 16, shape0 = 2, shape1 = 1, shape2 = 2, data = [0, 1, 4, 2] \<rparr>"

definition img_small :: "8 word volume" where
  "img_small = \<lparr> dtype = UnsignedInt 8, shape0 = 2, shape1 = 1, shape2 = 2, data = [0, 63, 255, 127] \<rparr>"

definition env_ok :: env where
  "env_ok = \<lparr> os_isdir = (\<lambda>p. p = ''ds''),
      os_walk = (\<lambda>p. [(''ds'', [''README'']),
                       (''ds/sub-01/dwi'', [''sub-01_dwi.nii.gz'']),
                       (''ds/sub-01/anat'', [''sub-01_FLAIR.nii.gz'', ''notes.txt''])]),
      os_relpath = (\<lambda>p start. if p = start then ''.'' else drop (length start + 1) p),
      sitk_read = (\<lambda>p. if p = ''ds/sub-01/dwi/sub-01_dwi.nii.gz''
                         then Inl (ReadError p) else Inr vol_small),
      fl_round = (\<lambda>x. x),
      mkdir_fails = (\<lambda>p. False),
      save_fails = (\<lambda>p. False) \<rparr>"

section \<open>Notions for the traversal\<close>

text \<open>The paths of the matched files, in the order in which \<^verbatim>\<open>os.walk\<close> yields them.\<close>

definition matched_paths :: "env \<Rightarrow> path \<Rightarrow> path list" where
  "matched_paths env input_root =
     concat (map (\<lambda>(root_dir, files).
                    map (path_join root_dir)
                      (filter (\<lambda>filename. is_flair root_dir filename \<or> is_dwi root_dir filename)
                         files))
               (os_walk env input_root))"

fun is_found :: "event \<Rightarrow> bool" where
  "is_found (MsgFound p) = True"
| "is_found _ = False"

text \<open>
  The operating system creates the folder of every matched file (line 109, which is
  outside the \<^verbatim>\<open>try\<close> of slice_image).
\<close>

definition walker_dirs_ok :: "env \<Rightarrow> path \<Rightarrow> path \<Rightarrow> bool" where
  "walker_dirs_ok env input_root output_root =
     list_all (\<lambda>(root_dir, files).
        list_all (\<lambda>filename. is_flair root_dir filename \<or> is_dwi root_dir filename \<longrightarrow>
                    list_all (\<lambda>a. \<not> mkdir_fails env a)
                      (ancestors (slice_folder env input_root output_root root_dir filename)
                       @ [slice_folder env input_root output_root root_dir filename]))
          files)
       (os_walk env input_root)"

text \<open>Every event of a command satisfies \<open>P\<close>.\<close>

definition emits_only :: "(event \<Rightarrow> bool) \<Rightarrow> cmd \<Rightarrow> bool" where
  "emits_only P c = (\<forall>s. list_all P (fst (snd (c s))))"

text \<open>
  A command can be replayed: it only adds directories, only ones that the operating system
  lets it create, and on any larger set of directories that holds all it has added (and
  beyond the start only directories that can be created) it does the same again and
  changes nothing.
\<close>

definition replays :: "env \<Rightarrow> cmd \<Rightarrow> bool" where
  "replays env c =
     (\<forall>s r ev s'. c s = (r, ev, s') \<longrightarrow>
        s \<subseteq> s' \<and> (\<forall>a \<in> s' - s. \<not> mkdir_fails env a)
      \<and> (\<forall>W. s' \<subseteq> W \<and> (\<forall>a \<in> W - s. \<not> mkdir_fails env a) \<longrightarrow> c W = (r, ev, W)))"

text \<open>
  The dataset of \<open>env_ok\<close> where a regular file stands in the place of the folder of the
  first matched file.
\<close>

definition env_blocked :: env where
  "env_blocked = env_ok \<lparr> mkdir_fails := (\<lambda>p. p = ''slide/sub-01/dwi/sub-01_dwi_slices'') \<rparr>"

section \<open>Minimum and maximum\<close>

lemma fold_min_Min: "fold min ys (x::rat) = Min (set (x # ys))"
  by (simp only: Min.set_eq_fold)

lemma fold_max_Max: "fold max ys (x::rat) = Max (set (x # ys))"
  by (simp only: Max.set_eq_fold)



lemma np_min_mem:
  assumes "np_min xs = Inr mn"
  shows "mn \<in> set xs"
proof (cases xs)
  case Nil
  with assms show ?thesis by (simp add: np_min_def)
next
  case (Cons x ys)
  have "Min (set (x # ys)) \<in> set (x # ys)"
    by (rule Min_in) simp_all
  with assms Cons show ?thesis
    by (simp add: np_min_def fold_min_Min del: set_simps)
qed

lemma np_max_mem:
  assumes "np_max xs = Inr mx"
  shows "mx \<in> set xs"
proof (cases xs)
  case Nil
  with assms show ?thesis by (simp add: np_max_def)
next
  case (Cons x ys)
  have "Max (set (x # ys)) \<in> set (x # ys)"
    by (rule Max_in) simp_all
  with assms Cons show ?thesis
    by (simp add: np_max_def fold_max_Max del: set_simps)
qed

section \<open>Subtraction in the sample type\<close>

lemma dtype_sub_same: "fl 0 = 0 \<Longrightarrow> dtype_sub fl t c c = 0"
  by (cases t) (simp_all add: dtype_sub_def)




section \<open>The rescale of line 29\<close>










section \<open>A difference that does not fit\<close>

text \<open>
  When the difference does not fit a signed type, it wraps around to a negative number, the
  test of line 28 fails, and the whole volume becomes 0.
\<close>

lemma dtype_sub_signed_wraps:
  assumes w: "0 < w"
    and a: "of_int \<lfloor>a\<rfloor> = a" and b: "of_int \<lfloor>b\<rfloor> = b"
    and ra: "a < 2 ^ (w - 1)" and rb: "- (2 ^ (w - 1)) \<le> b"
    and big: "2 ^ (w - 1) \<le> a - b"
  shows "dtype_sub fl (SignedInt w) a b < 0"
proof -
  let ?k = "\<lfloor>a\<rfloor> - \<lfloor>b\<rfloor>"
  have k: "(of_int ?k :: rat) = a - b"
  proof -
    have "(of_int ?k :: rat) = of_int \<lfloor>a\<rfloor> - of_int \<lfloor>b\<rfloor>" by (rule of_int_diff)
    then show ?thesis unfolding a b .
  qed
  have p: "(2 :: rat) ^ w = 2 * 2 ^ (w - 1)"
    using w by (cases w) simp_all
  have pi: "(2 :: int) ^ Suc (w - 1) = 2 ^ w"
    using w by simp
  have lo: "2 ^ (w - 1) \<le> ?k"
  proof -
    have "(of_int (2 ^ (w - 1)) :: rat) \<le> of_int ?k" using big k by simp
    then show ?thesis by (simp only: of_int_le_iff)
  qed
  have hi: "?k < 2 ^ w"
  proof -
    have "a - b < 2 ^ w" using ra rb p by linarith
    then have "(of_int ?k :: rat) < of_int (2 ^ w)" using k by simp
    then show ?thesis by (simp only: of_int_less_iff)
  qed
  have "signed_take_bit (w - 1) ?k \<le> ?k - 2 ^ Suc (w - 1)"
    using lo by (rule signed_take_bit_int_less_eq)
  then have "signed_take_bit (w - 1) ?k < 0" using hi pi by linarith
  then show ?thesis by (simp add: dtype_sub_def)
qed

lemma normalize_signed_wrap_zero:
  assumes w: "0 < w" and t: "dtype vol = SignedInt w"
    and ty: "list_all (in_dtype (dtype vol)) (data vol)"
    and mn: "np_min (data vol) = Inr mn" and mx: "np_max (data vol) = Inr mx"
    and big: "2 ^ (w - 1) \<le> mx - mn"
  shows "map_sum id data (normalize_volume fl vol) = Inr (replicate (length (data vol)) 0)"
proof -
  have tmn: "in_dtype (SignedInt w) mn" and tmx: "in_dtype (SignedInt w) mx"
    using ty np_min_mem [OF mn] np_max_mem [OF mx] unfolding list_all_iff t by blast+
  have "dtype_sub fl (SignedInt w) mx mn < 0"
    using tmn tmx big by (intro dtype_sub_signed_wraps w) (simp_all add: in_dtype_def)
  then have "\<not> 0 < dtype_sub fl (dtype vol) mx mn" using t by simp
  then show ?thesis
    using mn mx
    by (simp add: normalize_volume_def comp_def astype_uint8_def trunc_zero_def
        map_replicate_const)
qed

section \<open>Uniform volumes\<close>

lemma flat_index_less:
  assumes "i < D" "j < H" "k < (W::nat)"
  shows "i * H * W + j * W + k < D * H * W"
proof -
  have "j * W + k < j * W + W" using assms by simp
  also have "\<dots> = Suc j * W" by simp
  also have "\<dots> \<le> H * W" using assms by (intro mult_le_mono1) simp
  finally have a: "j * W + k < H * W" .
  have "i * H * W + j * W + k = i * (H * W) + (j * W + k)" by (simp add: mult.assoc)
  also have "\<dots> < i * (H * W) + H * W" using a by simp
  also have "\<dots> = Suc i * (H * W)" by simp
  also have "\<dots> \<le> D * (H * W)" using assms by (intro mult_le_mono1) simp
  finally show ?thesis by (simp add: mult.assoc)
qed

lemma at3_replicate:
  assumes "i < shape0 v" "j < shape1 v" "k < shape2 v"
    and "data v = replicate (shape0 v * shape1 v * shape2 v) c"
  shows "at3 v i j k = c"
  using flat_index_less [OF assms(1-3)] assms(4) by (simp add: at3_def)

text \<open>
  Claim C4. For a volume whose maximum equals its minimum, the normalization of
  slice_image sends every sample to 0, so every pixel of every axial, coronal and sagittal
  slice is 0.
\<close>

theorem uniform_volume_all_zero:
  assumes z: "fl 0 = 0" and wf: "wf_volume vol"
    and mn: "np_min (data vol) = Inr c" and mx: "np_max (data vol) = Inr c"
  shows "\<exists>img. normalize_volume fl vol = Inr img
           \<and> shape0 img = shape0 vol \<and> shape1 img = shape1 vol \<and> shape2 img = shape2 vol
           \<and> data img = replicate (length (data vol)) 0
           \<and> (\<forall>i < shape0 vol. list_all (list_all (\<lambda>px. px = 0)) (axial_slice img i))
           \<and> (\<forall>i < shape1 vol. list_all (list_all (\<lambda>px. px = 0)) (coronal_slice img i))
           \<and> (\<forall>i < shape2 vol. list_all (list_all (\<lambda>px. px = 0)) (sagittal_slice img i))"
proof -
  define img :: "8 word volume" where "img = \<lparr> dtype = UnsignedInt 8,
      shape0 = shape0 vol, shape1 = shape1 vol,
      shape2 = shape2 vol, data = replicate (length (data vol)) 0 \<rparr>"
  have norm: "normalize_volume fl vol = Inr img"
    using mn mx z dtype_sub_same [of fl "dtype vol" c]
    by (simp add: normalize_volume_def img_def comp_def astype_uint8_def trunc_zero_def
        map_replicate_const)
  have d: "data img = replicate (shape0 img * shape1 img * shape2 img) 0"
    using wf by (simp add: img_def wf_volume_def)
  have px: "at3 img i j k = 0" if "i < shape0 vol" "j < shape1 vol" "k < shape2 vol" for i j k
    using that at3_replicate [OF _ _ _ d, of i j k] by (simp add: img_def)
  have ax: "list_all (list_all (\<lambda>px. px = 0)) (axial_slice img i)" if "i < shape0 vol" for i
    using that px by (simp add: axial_slice_def list_all_iff img_def)
  have co: "list_all (list_all (\<lambda>px. px = 0)) (coronal_slice img i)" if "i < shape1 vol" for i
    using that px by (simp add: coronal_slice_def list_all_iff img_def)
  have sa: "list_all (list_all (\<lambda>px. px = 0)) (sagittal_slice img i)" if "i < shape2 vol" for i
    using that px by (simp add: sagittal_slice_def list_all_iff img_def)
  from norm ax co sa show ?thesis by (simp add: img_def)
qed

theorem uniform_volume_all_zero_witness:
  "\<exists>img. normalize_volume (\<lambda>x. x) vol_uniform = Inr img
     \<and> shape0 img = 2 \<and> shape1 img = 2 \<and> shape2 img = 3
     \<and> data img = replicate 12 0
     \<and> (\<forall>i < 2. list_all (list_all (\<lambda>px. px = 0)) (axial_slice img i))
     \<and> (\<forall>i < 2. list_all (list_all (\<lambda>px. px = 0)) (coronal_slice img i))
     \<and> (\<forall>i < 3. list_all (list_all (\<lambda>px. px = 0)) (sagittal_slice img i))"
proof -
  have wf: "wf_volume vol_uniform" by (simp add: wf_volume_def vol_uniform_def)
  have mn: "np_min (data vol_uniform) = Inr 100"
    by (simp add: vol_uniform_def np_min_def numeral_eq_Suc)
  have mx: "np_max (data vol_uniform) = Inr 100"
    by (simp add: vol_uniform_def np_max_def numeral_eq_Suc)
  show ?thesis
    using uniform_volume_all_zero [OF _ wf mn mx, of "\<lambda>x. x"] by (simp add: vol_uniform_def)
qed

section \<open>Commands\<close>

lemma seq_ok:
  assumes "c1 s = (None, ev1, s1)" "c2 s1 = (r, ev2, s2)"
  shows "seq c1 c2 s = (r, ev1 @ ev2, s2)"
  using assms by (simp add: seq_def)

lemma seq_fail:
  assumes "c1 s = (Some e, ev1, s1)"
  shows "seq c1 c2 s = (Some e, ev1, s1)"
  using assms by (simp add: seq_def)

lemma seq_skip_right: "seq c skip = c"
proof
  fix s
  obtain r ev s1 where c: "c s = (r, ev, s1)" by (cases "c s") auto
  show "seq c skip s = c s"
    using c by (cases r) (simp_all add: seq_def skip_def)
qed

lemma seq_skip_left: "seq skip c = c"
proof
  fix s
  obtain r ev s1 where c: "c s = (r, ev, s1)" by (cases "c s") auto
  show "seq skip c s = c s"
    using c by (simp add: seq_def skip_def)
qed

lemma foreach_save_ok:
  assumes "\<forall>x \<in> set xs. \<not> save_fails env (p x)"
  shows "foreach xs (\<lambda>x. save env (p x) (f x)) s = (None, map (\<lambda>x. Saved (p x) (f x)) xs, s)"
  using assms
proof (induction xs)
  case Nil
  show ?case by (simp add: skip_def)
next
  case (Cons x xs)
  have h: "save env (p x) (f x) s = (None, [Saved (p x) (f x)], s)"
    using Cons.prems by (simp add: save_def)
  have t: "foreach xs (\<lambda>x. save env (p x) (f x)) s = (None, map (\<lambda>x. Saved (p x) (f x)) xs, s)"
    using Cons by simp
  show ?case using h t by (simp add: seq_def)
qed

section \<open>Creating directories\<close>

lemma mkdir_missing_ok:
  assumes "\<forall>a \<in> set as. \<not> mkdir_fails env a"
  shows "foreach as (\<lambda>a s. if a \<in> s then skip s else os_mkdir env a s) s
           = (None, [], s \<union> set as)"
  using assms
proof (induction as arbitrary: s)
  case Nil
  show ?case by (simp add: skip_def)
next
  case (Cons a as)
  have h: "(if a \<in> s then skip s else os_mkdir env a s) = (None, [], insert a s)"
    using Cons.prems by (auto simp: skip_def os_mkdir_def)
  have t: "foreach as (\<lambda>a s. if a \<in> s then skip s else os_mkdir env a s) (insert a s)
             = (None, [], insert a s \<union> set as)"
    using Cons by simp
  show ?case using h t by (simp add: seq_def)
qed

lemma makedirs_ok:
  assumes "\<forall>a \<in> set (ancestors name). \<not> mkdir_fails env a"
    and "name \<in> s \<union> set (ancestors name) \<or> \<not> mkdir_fails env name"
  shows "makedirs env name True s = (None, [], insert name (s \<union> set (ancestors name)))"
proof -
  let ?s1 = "s \<union> set (ancestors name)"
  have a: "foreach (ancestors name) (\<lambda>a s. if a \<in> s then skip s else os_mkdir env a s) s
             = (None, [], ?s1)"
    by (rule mkdir_missing_ok [OF assms(1)])
  have b: "(case os_mkdir env name ?s1 of
                 (Some e, ev, s') \<Rightarrow>
                   if \<not> True \<or> name \<notin> s' then (Some e, ev, s') else (None, ev, s')
               | (None, ev, s') \<Rightarrow> (None, ev, s')) = (None, [], insert name ?s1)"
    using assms(2) by (auto simp: os_mkdir_def insert_absorb)
  show ?thesis
    using a b by (simp add: makedirs_def seq_def)
qed

lemma makedirs_free:
  assumes "\<forall>a. \<not> mkdir_fails env a"
  shows "makedirs env name True s = (None, [], insert name (s \<union> set (ancestors name)))"
  using assms by (intro makedirs_ok) simp_all

section \<open>Shapes of the slices\<close>

lemma has_shape_axial: "has_shape (axial_slice v i) (shape1 v) (shape2 v)"
  by (simp add: has_shape_def axial_slice_def list_all_iff)

lemma has_shape_coronal: "has_shape (coronal_slice v i) (shape0 v) (shape2 v)"
  by (simp add: has_shape_def coronal_slice_def list_all_iff)

lemma has_shape_sagittal: "has_shape (sagittal_slice v i) (shape0 v) (shape1 v)"
  by (simp add: has_shape_def sagittal_slice_def list_all_iff)

lemma normalize_volume_Inr:
  assumes "data vol \<noteq> []"
  shows "\<exists>img. normalize_volume fl vol = Inr img \<and> shape0 img = shape0 vol
           \<and> shape1 img = shape1 vol \<and> shape2 img = shape2 vol
           \<and> length (data img) = length (data vol)"
  using assms
  by (cases "data vol") (simp_all add: normalize_volume_def np_min_def np_max_def)

lemma wf_volume_nonempty: "wf_volume vol \<Longrightarrow> data vol \<noteq> []"
  by (auto simp: wf_volume_def)

section \<open>One plane without failures\<close>

lemma slice_plane_axial:
  assumes "\<forall>a. \<not> mkdir_fails env a" "\<forall>p. \<not> save_fails env p"
  shows "slice_plane env base img ''axial'' s =
     (None,
      map (\<lambda>i. Saved (path_join (path_join base ''axial'') (slice_name i)) (axial_slice img i))
        [0..<shape0 img],
      insert (path_join base ''axial'') (s \<union> set (ancestors (path_join base ''axial''))))"
proof -
  have sv: "\<forall>i \<in> set [0..<shape0 img].
      \<not> save_fails env (path_join (path_join base ''axial'') (slice_name i))"
    using assms(2) by simp
  show ?thesis
    unfolding slice_plane_def Let_def
    using seq_ok [OF makedirs_free [OF assms(1)] foreach_save_ok [OF sv]] by simp
qed

lemma slice_plane_coronal:
  assumes "\<forall>a. \<not> mkdir_fails env a" "\<forall>p. \<not> save_fails env p"
  shows "slice_plane env base img ''coronal'' s =
     (None,
      map (\<lambda>i. Saved (path_join (path_join base ''coronal'') (slice_name i)) (coronal_slice img i))
        [0..<shape1 img],
      insert (path_join base ''coronal'') (s \<union> set (ancestors (path_join base ''coronal''))))"
proof -
  have sv: "\<forall>i \<in> set [0..<shape1 img].
      \<not> save_fails env (path_join (path_join base ''coronal'') (slice_name i))"
    using assms(2) by simp
  show ?thesis
    unfolding slice_plane_def Let_def
    using seq_ok [OF makedirs_free [OF assms(1)] foreach_save_ok [OF sv]] by simp
qed

lemma slice_plane_sagittal:
  assumes "\<forall>a. \<not> mkdir_fails env a" "\<forall>p. \<not> save_fails env p"
  shows "slice_plane env base img ''sagittal'' s =
     (None,
      map (\<lambda>i. Saved (path_join (path_join base ''sagittal'') (slice_name i)) (sagittal_slice img i))
        [0..<shape2 img],
      insert (path_join base ''sagittal'') (s \<union> set (ancestors (path_join base ''sagittal''))))"
proof -
  have sv: "\<forall>i \<in> set [0..<shape2 img].
      \<not> save_fails env (path_join (path_join base ''sagittal'') (slice_name i))"
    using assms(2) by simp
  show ?thesis
    unfolding slice_plane_def Let_def
    using seq_ok [OF makedirs_free [OF assms(1)] foreach_save_ok [OF sv]] by simp
qed

section \<open>slice_image without failures\<close>

text \<open>
  Claim C2. When the file is read as a volume of shape (D, H, W) and no directory creation
  and no write fails, slice_image with the three planes writes, in this order, D axial
  pictures of shape (H, W), H coronal pictures of shape (D, W) and W sagittal pictures of
  shape (D, H), one per index of the plane's axis, and then reports success.
\<close>

theorem slice_image_counts_and_shapes:
  assumes rd: "sitk_read env input_path = Inr vol" and wf: "wf_volume vol"
    and nomk: "\<forall>a. \<not> mkdir_fails env a" and nosv: "\<forall>p. \<not> save_fails env p"
  shows "\<exists>img s'. normalize_volume (fl_round env) vol = Inr img
     \<and> slice_image env input_path base default_planes s =
         (None,
          map (\<lambda>i. Saved (path_join (path_join base ''axial'') (slice_name i))
                    (axial_slice img i)) [0..<shape0 vol]
          @ map (\<lambda>i. Saved (path_join (path_join base ''coronal'') (slice_name i))
                    (coronal_slice img i)) [0..<shape1 vol]
          @ map (\<lambda>i. Saved (path_join (path_join base ''sagittal'') (slice_name i))
                    (sagittal_slice img i)) [0..<shape2 vol]
          @ [MsgSliced base], s')
     \<and> (\<forall>i < shape0 vol. has_shape (axial_slice img i) (shape1 vol) (shape2 vol))
     \<and> (\<forall>i < shape1 vol. has_shape (coronal_slice img i) (shape0 vol) (shape2 vol))
     \<and> (\<forall>i < shape2 vol. has_shape (sagittal_slice img i) (shape0 vol) (shape1 vol))"
proof -
  obtain img where n: "normalize_volume (fl_round env) vol = Inr img"
    and s0: "shape0 img = shape0 vol" and s1: "shape1 img = shape1 vol"
    and s2: "shape2 img = shape2 vol"
    using normalize_volume_Inr [OF wf_volume_nonempty [OF wf]] by blast
  define sa where "sa = insert (path_join base ''axial'')
      (s \<union> set (ancestors (path_join base ''axial'')))"
  define sc where "sc = insert (path_join base ''coronal'')
      (sa \<union> set (ancestors (path_join base ''coronal'')))"
  define ss where "ss = insert (path_join base ''sagittal'')
      (sc \<union> set (ancestors (path_join base ''sagittal'')))"
  have a: "slice_plane env base img ''axial'' s =
      (None, map (\<lambda>i. Saved (path_join (path_join base ''axial'') (slice_name i))
                    (axial_slice img i)) [0..<shape0 vol], sa)"
    using slice_plane_axial [OF nomk nosv, of base img s] by (simp add: s0 sa_def)
  have c: "slice_plane env base img ''coronal'' sa =
      (None, map (\<lambda>i. Saved (path_join (path_join base ''coronal'') (slice_name i))
                    (coronal_slice img i)) [0..<shape1 vol], sc)"
    using slice_plane_coronal [OF nomk nosv, of base img sa] by (simp add: s1 sc_def)
  have g: "slice_plane env base img ''sagittal'' sc =
      (None, map (\<lambda>i. Saved (path_join (path_join base ''sagittal'') (slice_name i))
                    (sagittal_slice img i)) [0..<shape2 vol], ss)"
    using slice_plane_sagittal [OF nomk nosv, of base img sc] by (simp add: s2 ss_def)
  have loop: "foreach default_planes (slice_plane env base img) s =
      (None,
       map (\<lambda>i. Saved (path_join (path_join base ''axial'') (slice_name i))
                    (axial_slice img i)) [0..<shape0 vol]
       @ map (\<lambda>i. Saved (path_join (path_join base ''coronal'') (slice_name i))
                    (coronal_slice img i)) [0..<shape1 vol]
       @ map (\<lambda>i. Saved (path_join (path_join base ''sagittal'') (slice_name i))
                    (sagittal_slice img i)) [0..<shape2 vol], ss)"
    using a c g by (simp add: default_planes_def seq_def skip_def)
  have run: "slice_image env input_path base default_planes s =
      (None,
       map (\<lambda>i. Saved (path_join (path_join base ''axial'') (slice_name i))
                    (axial_slice img i)) [0..<shape0 vol]
       @ map (\<lambda>i. Saved (path_join (path_join base ''coronal'') (slice_name i))
                    (coronal_slice img i)) [0..<shape1 vol]
       @ map (\<lambda>i. Saved (path_join (path_join base ''sagittal'') (slice_name i))
                    (sagittal_slice img i)) [0..<shape2 vol]
       @ [MsgSliced base], ss)"
    using rd n loop
    by (simp add: slice_image_def slice_image_body_def try_except_def seq_def emit_def)
  have sh: "(\<forall>i < shape0 vol. has_shape (axial_slice img i) (shape1 vol) (shape2 vol))
     \<and> (\<forall>i < shape1 vol. has_shape (coronal_slice img i) (shape0 vol) (shape2 vol))
     \<and> (\<forall>i < shape2 vol. has_shape (sagittal_slice img i) (shape0 vol) (shape1 vol))"
    using has_shape_axial [of img] has_shape_coronal [of img] has_shape_sagittal [of img]
    by (simp add: s0 s1 s2)
  from n run sh show ?thesis by blast
qed

theorem slice_image_counts_and_shapes_witness:
  "\<exists>img s'. normalize_volume (\<lambda>x. x) vol_small = Inr img
     \<and> slice_image env_ok ''ds/sub-01/anat/sub-01_FLAIR.nii.gz'' ''out'' default_planes {} =
         (None,
          map (\<lambda>i. Saved (path_join (path_join ''out'' ''axial'') (slice_name i))
                    (axial_slice img i)) [0..<2]
          @ map (\<lambda>i. Saved (path_join (path_join ''out'' ''coronal'') (slice_name i))
                    (coronal_slice img i)) [0..<1]
          @ map (\<lambda>i. Saved (path_join (path_join ''out'' ''sagittal'') (slice_name i))
                    (sagittal_slice img i)) [0..<2]
          @ [MsgSliced ''out''], s')
     \<and> (\<forall>i < 2. has_shape (axial_slice img i) 1 2)
     \<and> (\<forall>i < 1. has_shape (coronal_slice img i) 2 2)
     \<and> (\<forall>i < 2. has_shape (sagittal_slice img i) 2 1)"
proof -
  have rd: "sitk_read env_ok ''ds/sub-01/anat/sub-01_FLAIR.nii.gz'' = Inr vol_small"
    by (simp add: env_ok_def)
  have wf: "wf_volume vol_small" by (simp add: wf_volume_def vol_small_def)
  have nomk: "\<forall>a. \<not> mkdir_fails env_ok a" by (simp add: env_ok_def)
  have nosv: "\<forall>p. \<not> save_fails env_ok p" by (simp add: env_ok_def)
  have fl: "fl_round env_ok = (\<lambda>x. x)" by (simp add: env_ok_def)
  have sh: "shape0 vol_small = 2" "shape1 vol_small = 1" "shape2 vol_small = 2"
    by (simp_all add: vol_small_def)
  show ?thesis
    using slice_image_counts_and_shapes [OF rd wf nomk nosv, of "''out''" "{}"]
    unfolding fl sh .
qed

section \<open>Planes that are not recognized\<close>

text \<open>
  Claim C10. For a plane name other than axial, coronal and sagittal, the loop body of
  slice_image is the creation of the directory and nothing else: it writes no picture
  and, when the operating system creates the directory, it raises nothing and the
  directory exists afterwards.
\<close>

theorem unknown_plane_only_makes_directory:
  assumes "plane \<notin> set default_planes"
  shows "slice_plane env base img plane s = makedirs env (path_join base plane) True s
     \<and> fst (snd (slice_plane env base img plane s)) = []
     \<and> ((\<forall>a. \<not> mkdir_fails env a) \<longrightarrow>
          fst (slice_plane env base img plane s) = None
        \<and> path_join base plane \<in> snd (snd (slice_plane env base img plane s)))"
proof -
  have eq: "slice_plane env base img plane = makedirs env (path_join base plane) True"
    using assms by (simp add: slice_plane_def default_planes_def seq_skip_right)
  have ev: "fst (snd (makedirs env name True t)) = []" for name t
  proof -
    have anc: "fst (snd (foreach as (\<lambda>a s. if a \<in> s then skip s else os_mkdir env a s) t)) = []"
      for as t
    proof (induction as arbitrary: t)
      case Nil
      show ?case by (simp add: skip_def)
    next
      case (Cons a as)
      show ?case
        using Cons [of t] Cons [of "insert a t"]
        by (simp add: seq_def skip_def os_mkdir_def split: prod.splits option.splits)
    qed
    obtain r ev t1 where f: "foreach (ancestors name)
        (\<lambda>a s. if a \<in> s then skip s else os_mkdir env a s) t = (r, ev, t1)"
      by (cases "foreach (ancestors name)
        (\<lambda>a s. if a \<in> s then skip s else os_mkdir env a s) t") auto
    have "ev = []" using anc [of "ancestors name" t] f by simp
    with f show ?thesis
      by (cases r) (simp_all add: makedirs_def seq_def os_mkdir_def)
  qed
  show ?thesis
    using ev [of "path_join base plane" s] makedirs_free [of env "path_join base plane" s]
    by (simp add: eq)
qed

theorem unknown_plane_only_makes_directory_witness:
  "slice_plane env_ok ''out'' img_small ''oblique'' {} = makedirs env_ok ''out/oblique'' True {}
     \<and> fst (snd (slice_plane env_ok ''out'' img_small ''oblique'' {})) = []
     \<and> fst (slice_plane env_ok ''out'' img_small ''oblique'' {}) = None
     \<and> ''out/oblique'' \<in> snd (snd (slice_plane env_ok ''out'' img_small ''oblique'' {}))"
proof -
  have p: "''oblique'' \<notin> set default_planes" by (simp add: default_planes_def)
  have j: "path_join ''out'' ''oblique'' = ''out/oblique''" by (simp add: path_join_def)
  have nomk: "\<forall>a. \<not> mkdir_fails env_ok a" by (simp add: env_ok_def)
  show ?thesis
    using unknown_plane_only_makes_directory [OF p, of env_ok "''out''" img_small "{}"] nomk
    unfolding j by blast
qed

section \<open>Slice names\<close>

declare str_nat.simps [simp del]

lemma digit_val_digit_char: "d < 10 \<Longrightarrow> digit_val (digit_char d) = d"
  by (simp add: digit_val_def digit_char_def)

lemma nat_of_digits_snoc: "nat_of_digits (ds @ [c]) = 10 * nat_of_digits ds + digit_val c"
  by (simp add: nat_of_digits_def)

lemma nat_of_digits_str_nat: "nat_of_digits (str_nat n) = n"
proof (induction n rule: str_nat.induct)
  case (1 n)
  show ?case
  proof (cases "n < 10")
    case True
    then have "str_nat n = [digit_char n]" by (subst str_nat.simps) simp
    with True show ?thesis by (simp add: nat_of_digits_def digit_val_digit_char)
  next
    case False
    then have s: "str_nat n = str_nat (n div 10) @ [digit_char (n mod 10)]"
      by (subst str_nat.simps) simp
    have "nat_of_digits (str_nat (n div 10)) = n div 10" using 1 False by simp
    then show ?thesis
      unfolding s nat_of_digits_snoc by (simp add: digit_val_digit_char)
  qed
qed

lemma nat_of_digits_zeros: "nat_of_digits (replicate k CHR ''0'' @ ds) = nat_of_digits ds"
proof -
  have "foldl (\<lambda>acc c. 10 * acc + digit_val c) 0 (replicate k CHR ''0'') = 0"
    by (induction k) (simp_all add: digit_val_def)
  then show ?thesis by (simp add: nat_of_digits_def)
qed

lemma nat_of_digits_fmt_03d: "nat_of_digits (fmt_03d i) = i"
  by (simp add: fmt_03d_def nat_of_digits_zeros nat_of_digits_str_nat)

lemma length_str_nat:
  "length (str_nat n) = (if n < 10 then 1 else Suc (length (str_nat (n div 10))))"
  by (subst str_nat.simps) simp

lemma length_str_nat_small: "n < 1000 \<Longrightarrow> length (str_nat n) \<le> 3"
proof -
  assume n: "n < 1000"
  have a: "n div 10 < 100" using n by simp
  have b: "n div 10 div 10 < 10" using a by simp
  show ?thesis
    using b length_str_nat [of n] length_str_nat [of "n div 10"]
      length_str_nat [of "n div 10 div 10"]
    by (simp split: if_splits)
qed

lemma length_str_nat_large: "1000 \<le> n \<Longrightarrow> 3 < length (str_nat n)"
proof -
  assume n: "1000 \<le> n"
  have a: "100 \<le> n div 10" using n by simp
  have b: "10 \<le> n div 10 div 10" using a by simp
  have "0 < length (str_nat m)" for m
    using length_str_nat [of m] by (simp split: if_splits)
  then have c: "0 < length (str_nat (n div 10 div 10 div 10))" .
  show ?thesis
    using n a b c length_str_nat [of n] length_str_nat [of "n div 10"]
      length_str_nat [of "n div 10 div 10"]
    by (simp split: if_splits)
qed

lemma length_fmt_03d: "length (fmt_03d i) = max 3 (length (str_nat i))"
  by (simp add: fmt_03d_def)

lemma fmt_03d_inj: "fmt_03d i = fmt_03d j \<Longrightarrow> i = j"
  by (metis nat_of_digits_fmt_03d)

lemma slice_name_inj: "slice_name i = slice_name j \<Longrightarrow> i = j"
  using fmt_03d_inj [of i j] by (simp add: slice_name_def)

lemma digit_char_in_digits: "d < 10 \<Longrightarrow> digit_char d \<in> set ''0123456789''"
proof -
  assume d: "d < 10"
  have all: "list_all (\<lambda>d. digit_char d \<in> set ''0123456789'') [0..<10]"
    by code_simp
  from d have "d \<in> set [0..<10]" by simp
  with all show ?thesis unfolding list_all_iff by blast
qed

lemma str_nat_digits: "set (str_nat n) \<subseteq> set ''0123456789''"
proof (induction n rule: str_nat.induct)
  case (1 n)
  show ?case
  proof (cases "n < 10")
    case True
    then have "str_nat n = [digit_char n]" by (subst str_nat.simps) simp
    with digit_char_in_digits [OF True] show ?thesis by simp
  next
    case False
    then have s: "str_nat n = str_nat (n div 10) @ [digit_char (n mod 10)]"
      by (subst str_nat.simps) simp
    have "digit_char (n mod 10) \<in> set ''0123456789''"
      by (rule digit_char_in_digits) simp
    with 1 False show ?thesis unfolding s by simp
  qed
qed

lemma fmt_03d_digits: "set (fmt_03d i) \<subseteq> set ''0123456789''"
  using str_nat_digits [of i] by (auto simp: fmt_03d_def)

text \<open>
  Claim C8. When nothing fails, each recognized plane saves one file per index of its axis,
  in ascending order from 0, under the name \<open>slice_\<close>, the index, \<open>.png\<close>; the index
  is written in decimal digits, three of them (with zeros on the left) up to 999 and more
  than three from 1000 on; different indices have different names.
\<close>

theorem slice_names_ascending_zero_padded:
  "((\<forall>a. \<not> mkdir_fails env a) \<and> (\<forall>p. \<not> save_fails env p) \<longrightarrow>
       fst (snd (slice_plane env base img ''axial'' s)) =
         map (\<lambda>i. Saved (path_join (path_join base ''axial'') (''slice_'' @ fmt_03d i @ ''.png''))
                   (axial_slice img i)) [0..<shape0 img]
     \<and> fst (snd (slice_plane env base img ''coronal'' s)) =
         map (\<lambda>i. Saved (path_join (path_join base ''coronal'') (''slice_'' @ fmt_03d i @ ''.png''))
                   (coronal_slice img i)) [0..<shape1 img]
     \<and> fst (snd (slice_plane env base img ''sagittal'' s)) =
         map (\<lambda>i. Saved (path_join (path_join base ''sagittal'') (''slice_'' @ fmt_03d i @ ''.png''))
                   (sagittal_slice img i)) [0..<shape2 img])
   \<and> (\<forall>i. set (fmt_03d i) \<subseteq> set ''0123456789'' \<and> nat_of_digits (fmt_03d i) = i
          \<and> 3 \<le> length (fmt_03d i)
          \<and> (i < 1000 \<longrightarrow> length (fmt_03d i) = 3)
          \<and> (1000 \<le> i \<longrightarrow> 3 < length (fmt_03d i))
          \<and> (\<forall>j. slice_name i = slice_name j \<longrightarrow> i = j))
   \<and> fmt_03d 0 = ''000'' \<and> fmt_03d 1 = ''001'' \<and> fmt_03d 1000 = ''1000''"
proof -
  have planes: "fst (snd (slice_plane env base img ''axial'' s)) =
         map (\<lambda>i. Saved (path_join (path_join base ''axial'') (''slice_'' @ fmt_03d i @ ''.png''))
                   (axial_slice img i)) [0..<shape0 img]
     \<and> fst (snd (slice_plane env base img ''coronal'' s)) =
         map (\<lambda>i. Saved (path_join (path_join base ''coronal'') (''slice_'' @ fmt_03d i @ ''.png''))
                   (coronal_slice img i)) [0..<shape1 img]
     \<and> fst (snd (slice_plane env base img ''sagittal'' s)) =
         map (\<lambda>i. Saved (path_join (path_join base ''sagittal'') (''slice_'' @ fmt_03d i @ ''.png''))
                   (sagittal_slice img i)) [0..<shape2 img]"
    if "\<forall>a. \<not> mkdir_fails env a" "\<forall>p. \<not> save_fails env p"
    using slice_plane_axial [OF that, of base img s] slice_plane_coronal [OF that, of base img s]
      slice_plane_sagittal [OF that, of base img s]
    by (simp add: slice_name_def)
  have digits: "set (fmt_03d i) \<subseteq> set ''0123456789'' \<and> nat_of_digits (fmt_03d i) = i
          \<and> 3 \<le> length (fmt_03d i)
          \<and> (i < 1000 \<longrightarrow> length (fmt_03d i) = 3)
          \<and> (1000 \<le> i \<longrightarrow> 3 < length (fmt_03d i))
          \<and> (\<forall>j. slice_name i = slice_name j \<longrightarrow> i = j)" for i
    using fmt_03d_digits [of i] nat_of_digits_fmt_03d [of i] length_str_nat_small [of i]
      length_str_nat_large [of i] slice_name_inj [of i]
    by (simp add: length_fmt_03d)
  have ex: "fmt_03d 0 = ''000'' \<and> fmt_03d 1 = ''001'' \<and> fmt_03d 1000 = ''1000''"
    by code_simp
  from planes digits ex show ?thesis by blast
qed

theorem slice_names_ascending_zero_padded_witness:
  "fst (snd (slice_plane env_ok ''out'' img_small ''axial'' {})) =
     [Saved ''out/axial/slice_000.png'' [[0, 63]], Saved ''out/axial/slice_001.png'' [[255, 127]]]
   \<and> fst (snd (slice_plane env_ok ''out'' img_small ''coronal'' {})) =
     [Saved ''out/coronal/slice_000.png'' [[0, 63], [255, 127]]]
   \<and> fst (snd (slice_plane env_ok ''out'' img_small ''sagittal'' {})) =
     [Saved ''out/sagittal/slice_000.png'' [[0], [255]],
      Saved ''out/sagittal/slice_001.png'' [[63], [127]]]
   \<and> length (fmt_03d 7) = 3 \<and> 3 < length (fmt_03d 1234)"
proof -
  have nomk: "\<forall>a. \<not> mkdir_fails env_ok a" by (simp add: env_ok_def)
  have nosv: "\<forall>p. \<not> save_fails env_ok p" by (simp add: env_ok_def)
  have f: "fmt_03d 0 = ''000''" "fmt_03d (Suc 0) = ''001''" by code_simp+
  have u: "[0..<2] = [0, Suc 0]" "[0..<1] = [0]" by (simp_all add: upt_rec)
  have ax: "map (\<lambda>i. Saved (path_join (path_join ''out'' ''axial'') (''slice_'' @ fmt_03d i @ ''.png''))
                   (axial_slice img_small i)) [0..<shape0 img_small]
      = [Saved ''out/axial/slice_000.png'' [[0, 63]], Saved ''out/axial/slice_001.png'' [[255, 127]]]"
    by (simp add: img_small_def u f path_join_def axial_slice_def at3_def)
  have co: "map (\<lambda>i. Saved (path_join (path_join ''out'' ''coronal'') (''slice_'' @ fmt_03d i @ ''.png''))
                   (coronal_slice img_small i)) [0..<shape1 img_small]
      = [Saved ''out/coronal/slice_000.png'' [[0, 63], [255, 127]]]"
    by (simp add: img_small_def u f path_join_def coronal_slice_def at3_def)
  have sa: "map (\<lambda>i. Saved (path_join (path_join ''out'' ''sagittal'') (''slice_'' @ fmt_03d i @ ''.png''))
                   (sagittal_slice img_small i)) [0..<shape2 img_small]
      = [Saved ''out/sagittal/slice_000.png'' [[0], [255]],
         Saved ''out/sagittal/slice_001.png'' [[63], [127]]]"
    by (simp add: img_small_def u f path_join_def sagittal_slice_def at3_def)
  show ?thesis
    using slice_names_ascending_zero_padded [of env_ok "''out''" img_small "{}"] nomk nosv
    unfolding ax co sa by simp
qed

section \<open>The input root\<close>

text \<open>
  Claim C6. When the input root is not a directory, process_dataset prints the one message
  of line 80 and returns: it raises nothing, creates no directory, visits and slices
  nothing.
\<close>

theorem missing_input_directory:
  assumes "\<not> os_isdir env input_root"
  shows "process_dataset env input_root output_root s = (None, [MsgNotFound input_root], s)"
  using assms by (simp add: process_dataset_def emit_def)

theorem missing_input_directory_witness:
  "process_dataset env_ok ''nowhere'' ''slide'' {} = (None, [MsgNotFound ''nowhere''], {})"
proof -
  have "\<not> os_isdir env_ok ''nowhere''" by (simp add: env_ok_def)
  then show ?thesis by (rule missing_input_directory)
qed

section \<open>Which files are sliced\<close>

lemma endswith_suffix: "endswith s suf \<longleftrightarrow> suffix suf s"
proof
  assume e: "endswith s suf"
  have "s = take (length s - length suf) s @ drop (length s - length suf) s" by simp
  with e have "s = take (length s - length suf) s @ suf" by (simp add: endswith_def)
  then show "suffix suf s" unfolding suffix_def by blast
next
  assume "suffix suf s"
  then obtain zs where "s = zs @ suf" unfolding suffix_def by blast
  then show "endswith s suf" by (simp add: endswith_def)
qed

lemma split_sep_not_Nil: "split_sep p \<noteq> []"
  by (induction p) (auto split: list.splits)

lemma join_sep_Cons: "ws \<noteq> [] \<Longrightarrow> join_sep (w # ws) = w @ ''/'' @ join_sep ws"
  by (cases ws) simp_all

lemma join_sep_Cons_char: "join_sep ((c # w) # ws) = c # join_sep (w # ws)"
  by (cases ws) simp_all

lemma join_sep_split_sep: "join_sep (split_sep p) = p"
proof (induction p)
  case Nil
  show ?case by simp
next
  case (Cons c cs)
  show ?case
  proof (cases "c = CHR ''/''")
    case True
    then show ?thesis using Cons by (simp add: join_sep_Cons split_sep_not_Nil)
  next
    case False
    obtain w ws where s: "split_sep cs = w # ws"
      using split_sep_not_Nil [of cs] by (cases "split_sep cs") auto
    show ?thesis using False Cons s by (simp add: join_sep_Cons_char)
  qed
qed

lemma split_sep_no_sep: "w \<in> set (split_sep p) \<Longrightarrow> CHR ''/'' \<notin> set w"
proof (induction p arbitrary: w)
  case Nil
  then show ?case by simp
next
  case (Cons c cs)
  show ?case
  proof (cases "c = CHR ''/''")
    case True
    with Cons show ?thesis by auto
  next
    case False
    obtain v vs where s: "split_sep cs = v # vs"
      using split_sep_not_Nil [of cs] by (cases "split_sep cs") auto
    from Cons.prems False s have "w = c # v \<or> w \<in> set vs" by simp
    then show ?thesis
    proof
      assume "w = c # v"
      moreover have "CHR ''/'' \<notin> set v" using Cons.IH [of v] s by simp
      ultimately show ?thesis using False by auto
    next
      assume "w \<in> set vs"
      then show ?thesis using Cons.IH [of w] s by simp
    qed
  qed
qed

text \<open>
  Claim C5. The pieces of the directory path are those between its separators. A file is
  a FLAIR match exactly when \<open>anat\<close> is one of the pieces and the name ends with
  \<open>_FLAIR.nii.gz\<close>, a DWI match exactly when \<open>dwi\<close> is one of the pieces and the name
  ends with \<open>_dwi.nii.gz\<close>; the file is handed to slice_image exactly when it is one of
  the two, and otherwise nothing happens for it.
\<close>

theorem dispatch_iff_flair_or_dwi:
  "join_sep (split_sep root_dir) = root_dir
   \<and> (\<forall>w \<in> set (split_sep root_dir). CHR ''/'' \<notin> set w)
   \<and> (is_flair root_dir filename \<longleftrightarrow>
        ''anat'' \<in> set (split_sep root_dir) \<and> suffix ''_FLAIR.nii.gz'' filename)
   \<and> (is_dwi root_dir filename \<longleftrightarrow>
        ''dwi'' \<in> set (split_sep root_dir) \<and> suffix ''_dwi.nii.gz'' filename)
   \<and> process_file env input_root output_root root_dir filename =
       (if is_flair root_dir filename \<or> is_dwi root_dir filename
        then seq (emit (MsgFound (path_join root_dir filename)))
               (seq (makedirs env
                       (slice_folder env input_root output_root root_dir filename) True)
                    (slice_image env (path_join root_dir filename)
                       (slice_folder env input_root output_root root_dir filename)
                       default_planes))
        else skip)"
  using split_sep_no_sep [of _ root_dir]
  by (simp add: join_sep_split_sep is_flair_def is_dwi_def endswith_suffix process_file_def
      Let_def)

theorem dispatch_iff_flair_or_dwi_witness:
  "is_flair ''ds/sub-01/anat'' ''sub-01_FLAIR.nii.gz''
   \<and> \<not> is_flair ''ds/sub-01/anat'' ''notes.txt''
   \<and> \<not> is_flair ''ds/sub-01/func'' ''sub-01_FLAIR.nii.gz''
   \<and> \<not> is_flair ''ds/sub-01/anatomy'' ''sub-01_FLAIR.nii.gz''
   \<and> is_dwi ''ds/sub-01/dwi'' ''sub-01_dwi.nii.gz''
   \<and> \<not> is_dwi ''ds/sub-01/anat'' ''sub-01_dwi.nii.gz''
   \<and> process_file env_ok ''ds'' ''slide'' ''ds/sub-01/anat'' ''notes.txt'' = skip
   \<and> process_file env_ok ''ds'' ''slide'' ''ds/sub-01/func'' ''sub-01_FLAIR.nii.gz'' = skip"
proof -
  have a: "split_sep ''ds/sub-01/anat'' = [''ds'', ''sub-01'', ''anat'']"
    and f: "split_sep ''ds/sub-01/func'' = [''ds'', ''sub-01'', ''func'']"
    and y: "split_sep ''ds/sub-01/anatomy'' = [''ds'', ''sub-01'', ''anatomy'']"
    and d: "split_sep ''ds/sub-01/dwi'' = [''ds'', ''sub-01'', ''dwi'']"
    by simp_all
  have s1: "suffix ''_FLAIR.nii.gz'' ''sub-01_FLAIR.nii.gz''"
    and s2: "\<not> suffix ''_FLAIR.nii.gz'' ''notes.txt''"
    and s3: "\<not> suffix ''_dwi.nii.gz'' ''notes.txt''"
    and s4: "suffix ''_dwi.nii.gz'' ''sub-01_dwi.nii.gz''"
    and s5: "\<not> suffix ''_dwi.nii.gz'' ''sub-01_FLAIR.nii.gz''"
    by (simp_all add: endswith_suffix [symmetric] endswith_def)
  show ?thesis
    using dispatch_iff_flair_or_dwi [of "''ds/sub-01/anat''" "''sub-01_FLAIR.nii.gz''" env_ok "''ds''" "''slide''"]
      dispatch_iff_flair_or_dwi [of "''ds/sub-01/anat''" "''notes.txt''" env_ok "''ds''" "''slide''"]
      dispatch_iff_flair_or_dwi [of "''ds/sub-01/func''" "''sub-01_FLAIR.nii.gz''" env_ok "''ds''" "''slide''"]
      dispatch_iff_flair_or_dwi [of "''ds/sub-01/anatomy''" "''sub-01_FLAIR.nii.gz''" env_ok "''ds''" "''slide''"]
      dispatch_iff_flair_or_dwi [of "''ds/sub-01/dwi''" "''sub-01_dwi.nii.gz''" env_ok "''ds''" "''slide''"]
      dispatch_iff_flair_or_dwi [of "''ds/sub-01/anat''" "''sub-01_dwi.nii.gz''" env_ok "''ds''" "''slide''"]
    unfolding a f y d using s1 s2 s3 s4 s5 by simp
qed

section \<open>The folder of a volume\<close>

text \<open>
  Claim C7 at a file name that holds \<open>.nii.gz\<close> twice. Line 106 removes every
  occurrence, not the suffix only: the files \<open>a.nii.gz_FLAIR.nii.gz\<close> and
  \<open>a_FLAIR.nii.gz\<close> of one directory are both FLAIR matches and both get the folder
  \<open>a_FLAIR_slices\<close>, where the name without its suffix gives \<open>a.nii.gz_FLAIR_slices\<close>
  for the first.
\<close>

theorem slice_folder_replaces_every_occurrence:
  "is_flair ''ds/anat'' ''a.nii.gz_FLAIR.nii.gz'' \<and> is_flair ''ds/anat'' ''a_FLAIR.nii.gz''
   \<and> slice_folder env_ok ''ds'' ''slide'' ''ds/anat'' ''a.nii.gz_FLAIR.nii.gz''
        = ''slide/anat/a_FLAIR_slices''
   \<and> slice_folder env_ok ''ds'' ''slide'' ''ds/anat'' ''a_FLAIR.nii.gz''
        = ''slide/anat/a_FLAIR_slices''
   \<and> path_join (path_join ''slide'' (os_relpath env_ok ''ds/anat'' ''ds''))
        (strip_nii_gz ''a.nii.gz_FLAIR.nii.gz'' @ ''_slices'')
        = ''slide/anat/a.nii.gz_FLAIR_slices''"
  by (simp add: is_flair_def endswith_def slice_folder_def env_ok_def path_join_def
      strip_nii_gz_def)

text \<open>On an ordinary name the two agree.\<close>

lemma slice_folder_ordinary:
  "slice_folder env_ok ''ds'' ''slide'' ''ds/sub-01/anat'' ''sub-01_FLAIR.nii.gz''
     = ''slide/sub-01/anat/sub-01_FLAIR_slices''
   \<and> strip_nii_gz ''sub-01_FLAIR.nii.gz'' = ''sub-01_FLAIR''"
  by (simp add: slice_folder_def env_ok_def path_join_def strip_nii_gz_def)

section \<open>The events of a command\<close>

lemma emits_onlyI: "(\<And>s. list_all P (fst (snd (c s)))) \<Longrightarrow> emits_only P c"
  by (simp add: emits_only_def)

lemma emits_onlyD: "emits_only P c \<Longrightarrow> c s = (r, ev, s') \<Longrightarrow> list_all P ev"
  unfolding emits_only_def by (metis fst_conv snd_conv)

lemma emits_only_skip: "emits_only P skip"
  by (simp add: emits_only_def skip_def)

lemma emits_only_raise: "emits_only P (raise e)"
  by (simp add: emits_only_def raise_def)

lemma emits_only_emit: "P ev \<Longrightarrow> emits_only P (emit ev)"
  by (simp add: emits_only_def emit_def)

lemma emits_only_save: "P (Saved p img) \<Longrightarrow> emits_only P (save env p img)"
  by (simp add: emits_only_def save_def)

lemma emits_only_seq:
  assumes "emits_only P c1" "emits_only P c2"
  shows "emits_only P (seq c1 c2)"
proof (rule emits_onlyI)
  fix s
  obtain r1 ev1 s1 where c1: "c1 s = (r1, ev1, s1)" by (cases "c1 s") auto
  obtain r2 ev2 s2 where c2: "c2 s1 = (r2, ev2, s2)" by (cases "c2 s1") auto
  have "list_all P ev1" "list_all P ev2"
    using emits_onlyD [OF assms(1) c1] emits_onlyD [OF assms(2) c2] by simp_all
  then show "list_all P (fst (snd (seq c1 c2 s)))"
    using c1 c2 by (cases r1) (simp_all add: seq_def)
qed

lemma emits_only_foreach:
  assumes "\<And>x. x \<in> set xs \<Longrightarrow> emits_only P (body x)"
  shows "emits_only P (foreach xs body)"
  using assms by (induction xs) (simp_all add: emits_only_skip emits_only_seq)

lemma emits_only_try_except:
  assumes "emits_only P c" "\<And>e. emits_only P (handler e)"
  shows "emits_only P (try_except c handler)"
proof (rule emits_onlyI)
  fix s
  obtain r1 ev1 s1 where c: "c s = (r1, ev1, s1)" by (cases "c s") auto
  have p1: "list_all P ev1" using emits_onlyD [OF assms(1) c] by simp
  show "list_all P (fst (snd (try_except c handler s)))"
  proof (cases r1)
    case None
    with c p1 show ?thesis by (simp add: try_except_def)
  next
    case (Some e)
    obtain r2 ev2 s2 where h: "handler e s1 = (r2, ev2, s2)" by (cases "handler e s1") auto
    have "list_all P ev2" using emits_onlyD [OF assms(2) h] by simp
    with c p1 Some h show ?thesis by (simp add: try_except_def)
  qed
qed

lemma emits_only_os_mkdir: "emits_only P (os_mkdir env a)"
  by (simp add: emits_only_def os_mkdir_def)

lemma emits_only_makedirs: "emits_only P (makedirs env name exist_ok)"
proof -
  have a: "emits_only P (\<lambda>s. if a \<in> s then skip s else os_mkdir env a s)" for a
    by (simp add: emits_only_def skip_def os_mkdir_def)
  have b: "emits_only P (\<lambda>s. case os_mkdir env name s of
                 (Some e, ev, s') \<Rightarrow>
                   if \<not> exist_ok \<or> name \<notin> s' then (Some e, ev, s') else (None, ev, s')
               | (None, ev, s') \<Rightarrow> (None, ev, s'))"
    by (simp add: emits_only_def os_mkdir_def)
  show ?thesis
    unfolding makedirs_def by (intro emits_only_seq emits_only_foreach a b)
qed

lemma emits_only_slice_plane:
  assumes "\<And>p img. P (Saved p img)"
  shows "emits_only P (slice_plane env base img plane)"
  unfolding slice_plane_def Let_def
  by (intro emits_only_seq emits_only_makedirs)
     (simp add: emits_only_foreach emits_only_save assms emits_only_skip)

lemma emits_only_slice_image:
  assumes "\<And>p img. P (Saved p img)" "\<And>p. P (MsgSliced p)" "\<And>p e. P (MsgError p e)"
  shows "emits_only P (slice_image env input_path base planes)"
proof -
  have body: "emits_only P (slice_image_body env input_path base planes)"
    unfolding slice_image_body_def
    by (auto split: sum.splits
        intro!: emits_only_raise emits_only_seq emits_only_foreach emits_only_slice_plane
          emits_only_emit assms)
  show ?thesis
    unfolding slice_image_def
    by (intro emits_only_try_except body emits_only_emit assms)
qed

lemma slice_image_not_found:
  "slice_image env input_path base planes s = (r, ev, s') \<Longrightarrow> filter is_found ev = []"
proof -
  assume run: "slice_image env input_path base planes s = (r, ev, s')"
  have "emits_only (\<lambda>ev. \<not> is_found ev) (slice_image env input_path base planes)"
    by (rule emits_only_slice_image) simp_all
  from emits_onlyD [OF this run] show ?thesis
    by (simp add: list_all_iff filter_empty_conv)
qed

section \<open>The \<^verbatim>\<open>try\<close> of slice_image\<close>

lemma slice_image_never_raises: "fst (slice_image env input_path base planes s) = None"
proof -
  obtain r ev s1 where b: "slice_image_body env input_path base planes s = (r, ev, s1)"
    by (cases "slice_image_body env input_path base planes s") auto
  show ?thesis
    using b by (cases r) (simp_all add: slice_image_def try_except_def emit_def)
qed

lemma slice_image_reports:
  assumes "slice_image_body env input_path base planes s = (Some e, ev, s1)"
  shows "slice_image env input_path base planes s = (None, ev @ [MsgError input_path e], s1)"
  using assms by (simp add: slice_image_def try_except_def emit_def)

lemma slice_image_success:
  assumes "slice_image_body env input_path base planes s = (None, ev, s1)"
  shows "slice_image env input_path base planes s = (None, ev, s1)"
  using assms by (simp add: slice_image_def try_except_def)

lemma slice_image_read_error:
  assumes "sitk_read env input_path = Inl e"
  shows "slice_image env input_path base planes s = (None, [MsgError input_path e], s)"
  using assms by (simp add: slice_image_def slice_image_body_def try_except_def emit_def raise_def)

section \<open>The traversal\<close>

lemma foreach_never_raises:
  assumes "\<And>x s. x \<in> set xs \<Longrightarrow> fst (body x s) = None"
  shows "fst (foreach xs body s) = None"
  using assms
proof (induction xs arbitrary: s)
  case Nil
  show ?case by (simp add: skip_def)
next
  case (Cons x xs)
  obtain ev1 s1 where h: "body x s = (None, ev1, s1)"
    using Cons.prems [of x s] by (cases "body x s") auto
  have "fst (foreach xs body s1) = None" using Cons by simp
  then obtain ev2 s2 where "foreach xs body s1 = (None, ev2, s2)"
    by (cases "foreach xs body s1") auto
  with h show ?case by (simp add: seq_def)
qed

lemma foreach_filter_events:
  assumes "\<And>x s. x \<in> set xs \<Longrightarrow> fst (body x s) = None"
    and "\<And>x s. x \<in> set xs \<Longrightarrow> filter P (fst (snd (body x s))) = g x"
  shows "filter P (fst (snd (foreach xs body s))) = concat (map g xs)"
  using assms
proof (induction xs arbitrary: s)
  case Nil
  show ?case by (simp add: skip_def)
next
  case (Cons x xs)
  obtain ev1 s1 where h: "body x s = (None, ev1, s1)"
    using Cons.prems(1) [of x s] by (cases "body x s") auto
  have e1: "filter P ev1 = g x" using Cons.prems(2) [of x s] h by simp
  have t: "filter P (fst (snd (foreach xs body s1))) = concat (map g xs)"
    using Cons by simp
  obtain r2 ev2 s2 where f: "foreach xs body s1 = (r2, ev2, s2)"
    by (cases "foreach xs body s1") auto
  show ?case using h e1 t f by (simp add: seq_def)
qed

lemma process_file_matched:
  assumes m: "is_flair root_dir filename \<or> is_dwi root_dir filename"
    and ok: "list_all (\<lambda>a. \<not> mkdir_fails env a)
              (ancestors (slice_folder env input_root output_root root_dir filename)
               @ [slice_folder env input_root output_root root_dir filename])"
  shows "fst (process_file env input_root output_root root_dir filename s) = None
     \<and> filter is_found (fst (snd (process_file env input_root output_root root_dir filename s)))
         = [MsgFound (path_join root_dir filename)]"
proof -
  let ?folder = "slice_folder env input_root output_root root_dir filename"
  let ?s1 = "insert ?folder (s \<union> set (ancestors ?folder))"
  have mk: "makedirs env ?folder True s = (None, [], ?s1)"
    using ok by (intro makedirs_ok) (simp_all add: list_all_iff)
  obtain r ev s2 where sl: "slice_image env (path_join root_dir filename) ?folder default_planes ?s1
      = (r, ev, s2)"
    by (cases "slice_image env (path_join root_dir filename) ?folder default_planes ?s1") auto
  have r: "r = None"
    using slice_image_never_raises [of env "path_join root_dir filename" ?folder default_planes ?s1]
      sl by simp
  have nf: "filter is_found ev = []" by (rule slice_image_not_found [OF sl])
  show ?thesis
    using m mk sl r nf by (simp add: process_file_def Let_def seq_def emit_def)
qed

lemma process_file_unmatched:
  assumes "\<not> (is_flair root_dir filename \<or> is_dwi root_dir filename)"
  shows "process_file env input_root output_root root_dir filename s = (None, [], s)"
  using assms by (simp add: process_file_def skip_def)

lemma process_files_in_directory:
  assumes "list_all (\<lambda>filename. is_flair root_dir filename \<or> is_dwi root_dir filename \<longrightarrow>
                    list_all (\<lambda>a. \<not> mkdir_fails env a)
                      (ancestors (slice_folder env input_root output_root root_dir filename)
                       @ [slice_folder env input_root output_root root_dir filename]))
          files"
  shows "fst (foreach files (process_file env input_root output_root root_dir) s) = None
     \<and> filter is_found
         (fst (snd (foreach files (process_file env input_root output_root root_dir) s)))
       = map MsgFound (map (path_join root_dir)
           (filter (\<lambda>filename. is_flair root_dir filename \<or> is_dwi root_dir filename) files))"
proof -
  let ?g = "\<lambda>filename. if is_flair root_dir filename \<or> is_dwi root_dir filename
      then [MsgFound (path_join root_dir filename)] else []"
  have each: "fst (process_file env input_root output_root root_dir f t) = None
      \<and> filter is_found (fst (snd (process_file env input_root output_root root_dir f t))) = ?g f"
    if "f \<in> set files" for f t
  proof (cases "is_flair root_dir f \<or> is_dwi root_dir f")
    case True
    with assms that have "list_all (\<lambda>a. \<not> mkdir_fails env a)
        (ancestors (slice_folder env input_root output_root root_dir f)
         @ [slice_folder env input_root output_root root_dir f])"
      unfolding list_all_iff by blast
    from process_file_matched [OF True this, of t] True show ?thesis by simp
  next
    case False
    with process_file_unmatched [OF False, of env input_root output_root t]
    show ?thesis by simp
  qed
  have c: "concat (map ?g fs) = map MsgFound (map (path_join root_dir)
           (filter (\<lambda>filename. is_flair root_dir filename \<or> is_dwi root_dir filename) fs))"
    for fs by (induction fs) simp_all
  have n: "fst (foreach files (process_file env input_root output_root root_dir) s) = None"
    by (rule foreach_never_raises) (simp add: each)
  have e: "filter is_found
         (fst (snd (foreach files (process_file env input_root output_root root_dir) s)))
       = concat (map ?g files)"
    by (rule foreach_filter_events) (simp_all add: each)
  from n e c [of files] show ?thesis by simp
qed

lemma walk_all_directories:
  assumes "walker_dirs_ok env input_root output_root"
  shows "fst (foreach (os_walk env input_root)
               (\<lambda>(root_dir, files). foreach files (process_file env input_root output_root root_dir)) s)
           = None
     \<and> filter is_found (fst (snd (foreach (os_walk env input_root)
               (\<lambda>(root_dir, files). foreach files (process_file env input_root output_root root_dir)) s)))
         = map MsgFound (matched_paths env input_root)"
proof -
  let ?body = "\<lambda>(root_dir, files). foreach files (process_file env input_root output_root root_dir)"
  let ?g = "\<lambda>(root_dir, files). map MsgFound (map (path_join root_dir)
           (filter (\<lambda>filename. is_flair root_dir filename \<or> is_dwi root_dir filename) files))"
  have each: "fst (?body x t) = None \<and> filter is_found (fst (snd (?body x t))) = ?g x"
    if "x \<in> set (os_walk env input_root)" for x t
  proof -
    obtain root_dir files where x: "x = (root_dir, files)" by (cases x) auto
    have "list_all (\<lambda>filename. is_flair root_dir filename \<or> is_dwi root_dir filename \<longrightarrow>
                    list_all (\<lambda>a. \<not> mkdir_fails env a)
                      (ancestors (slice_folder env input_root output_root root_dir filename)
                       @ [slice_folder env input_root output_root root_dir filename]))
          files"
      using assms that x unfolding walker_dirs_ok_def list_all_iff [of _ "os_walk env input_root"]
      by blast
    from process_files_in_directory [OF this, of t] x show ?thesis by simp
  qed
  have n: "fst (foreach (os_walk env input_root) ?body s) = None"
    by (rule foreach_never_raises) (simp add: each)
  have e: "filter is_found (fst (snd (foreach (os_walk env input_root) ?body s)))
      = concat (map ?g (os_walk env input_root))"
    by (rule foreach_filter_events) (simp_all add: each)
  have c: "concat (map ?g ws) = map MsgFound (concat (map (\<lambda>(root_dir, files).
                    map (path_join root_dir)
                      (filter (\<lambda>filename. is_flair root_dir filename \<or> is_dwi root_dir filename)
                         files)) ws))" for ws
    by (induction ws) (auto simp: map_concat)
  from n e c [of "os_walk env input_root"] show ?thesis by (simp add: matched_paths_def)
qed

text \<open>
  Claim C3, as the code has it. slice_image never raises: whatever its body raises (a
  file that cannot be read, an empty array, a plane directory that cannot be created, a
  picture that cannot be written) ends the work on that file there and is reported with
  the path of the file. When the folders of line 109 can be created, process_dataset
  visits every matched file, in the order of the walk, and completes.
\<close>

theorem per_file_failures_are_contained:
  "fst (slice_image env input_path base planes s) = None
   \<and> (\<forall>e ev s1. slice_image_body env input_path base planes s = (Some e, ev, s1) \<longrightarrow>
         slice_image env input_path base planes s = (None, ev @ [MsgError input_path e], s1))
   \<and> (\<forall>e. sitk_read env input_path = Inl e \<longrightarrow>
         slice_image env input_path base planes s = (None, [MsgError input_path e], s))
   \<and> (os_isdir env input_root \<and> walker_dirs_ok env input_root output_root \<longrightarrow>
        (\<exists>ev s'. process_dataset env input_root output_root s = (None, ev, s')
           \<and> filter is_found ev = map MsgFound (matched_paths env input_root)
           \<and> last ev = MsgComplete))"
proof -
  have walk: "\<exists>ev s'. process_dataset env input_root output_root s = (None, ev, s')
           \<and> filter is_found ev = map MsgFound (matched_paths env input_root)
           \<and> last ev = MsgComplete"
    if d: "os_isdir env input_root" and ok: "walker_dirs_ok env input_root output_root"
  proof -
    let ?loop = "foreach (os_walk env input_root)
        (\<lambda>(root_dir, files). foreach files (process_file env input_root output_root root_dir))"
    obtain r1 ev1 s1 where l: "?loop s = (r1, ev1, s1)" by (cases "?loop s") auto
    from walk_all_directories [OF ok, of s] l
    have r1: "r1 = None" and f: "filter is_found ev1 = map MsgFound (matched_paths env input_root)"
      by simp_all
    have run: "process_dataset env input_root output_root s
        = (None, MsgStart input_root # MsgOutput output_root # ev1 @ [MsgComplete], s1)"
      using d l r1 by (simp add: process_dataset_def seq_def emit_def)
    show ?thesis using run f by simp
  qed
  show ?thesis
    using slice_image_never_raises [of env input_path base planes s] walk
    by (simp add: slice_image_reports slice_image_read_error)
qed

theorem per_file_failures_are_contained_witness:
  "slice_image env_ok ''ds/sub-01/dwi/sub-01_dwi.nii.gz'' ''out'' default_planes {}
     = (None, [MsgError ''ds/sub-01/dwi/sub-01_dwi.nii.gz''
                 (ReadError ''ds/sub-01/dwi/sub-01_dwi.nii.gz'')], {})
   \<and> (\<exists>ev s'. process_dataset env_ok ''ds'' ''slide'' {} = (None, ev, s')
         \<and> filter is_found ev = [MsgFound ''ds/sub-01/dwi/sub-01_dwi.nii.gz'',
                                  MsgFound ''ds/sub-01/anat/sub-01_FLAIR.nii.gz'']
         \<and> last ev = MsgComplete)"
proof -
  have rd: "sitk_read env_ok ''ds/sub-01/dwi/sub-01_dwi.nii.gz''
      = Inl (ReadError ''ds/sub-01/dwi/sub-01_dwi.nii.gz'')"
    by (simp add: env_ok_def)
  have d: "os_isdir env_ok ''ds''" by (simp add: env_ok_def)
  have ok: "walker_dirs_ok env_ok ''ds'' ''slide''"
    by (simp add: walker_dirs_ok_def env_ok_def list_all_iff)
  have m: "matched_paths env_ok ''ds'' = [''ds/sub-01/dwi/sub-01_dwi.nii.gz'',
      ''ds/sub-01/anat/sub-01_FLAIR.nii.gz'']"
    by (simp add: matched_paths_def env_ok_def is_flair_def is_dwi_def endswith_def
        path_join_def)
  show ?thesis
    using per_file_failures_are_contained [of env_ok "''ds/sub-01/dwi/sub-01_dwi.nii.gz''"
        "''out''" default_planes "{}" "''ds''" "''slide''"] rd d ok
    unfolding m by simp
qed

text \<open>
  Claim C3, as the specification words it, fails. A folder of line 109 that cannot be
  created is a failure of directory creation for one matched file; it is raised outside
  the \<^verbatim>\<open>try\<close>, leaves process_dataset, and the FLAIR file that comes next is never
  visited.
\<close>

theorem folder_creation_failure_aborts_counterexample:
  "is_dwi ''ds/sub-01/dwi'' ''sub-01_dwi.nii.gz''
   \<and> is_flair ''ds/sub-01/anat'' ''sub-01_FLAIR.nii.gz''
   \<and> process_dataset env_blocked ''ds'' ''slide'' {} =
       (Some (MkdirError ''slide/sub-01/dwi/sub-01_dwi_slices''),
        [MsgStart ''ds'', MsgOutput ''slide'', MsgFound ''ds/sub-01/dwi/sub-01_dwi.nii.gz''],
        {''slide'', ''slide/sub-01'', ''slide/sub-01/dwi''})"
proof -
  have m: "is_dwi ''ds/sub-01/dwi'' ''sub-01_dwi.nii.gz''"
    "is_flair ''ds/sub-01/anat'' ''sub-01_FLAIR.nii.gz''"
    "\<not> is_flair ''ds'' ''README''" "\<not> is_dwi ''ds'' ''README''"
    "\<not> is_flair ''ds/sub-01/dwi'' ''sub-01_dwi.nii.gz''"
    by (simp_all add: is_flair_def is_dwi_def endswith_def)
  have f: "slice_folder env_blocked ''ds'' ''slide'' ''ds/sub-01/dwi'' ''sub-01_dwi.nii.gz''
      = ''slide/sub-01/dwi/sub-01_dwi_slices''"
    by (simp add: slice_folder_def env_blocked_def env_ok_def path_join_def)
  have a: "ancestors ''slide/sub-01/dwi/sub-01_dwi_slices''
      = [''slide'', ''slide/sub-01'', ''slide/sub-01/dwi'']"
    by code_simp
  have mk: "makedirs env_blocked ''slide/sub-01/dwi/sub-01_dwi_slices'' True {}
      = (Some (MkdirError ''slide/sub-01/dwi/sub-01_dwi_slices''), [],
         {''slide'', ''slide/sub-01'', ''slide/sub-01/dwi''})"
    unfolding makedirs_def a
    by (simp add: seq_def skip_def os_mkdir_def env_blocked_def env_ok_def insert_commute)
  have w: "os_walk env_blocked ''ds'' = [(''ds'', [''README'']),
                       (''ds/sub-01/dwi'', [''sub-01_dwi.nii.gz'']),
                       (''ds/sub-01/anat'', [''sub-01_FLAIR.nii.gz'', ''notes.txt''])]"
    and d: "os_isdir env_blocked ''ds''"
    by (simp_all add: env_blocked_def env_ok_def)
  have p1: "process_file env_blocked ''ds'' ''slide'' ''ds'' ''README'' = skip"
    using m by (simp add: process_file_def)
  have j: "path_join ''ds/sub-01/dwi'' ''sub-01_dwi.nii.gz'' = ''ds/sub-01/dwi/sub-01_dwi.nii.gz''"
    by (simp add: path_join_def)
  have p2: "process_file env_blocked ''ds'' ''slide'' ''ds/sub-01/dwi'' ''sub-01_dwi.nii.gz'' {}
      = (Some (MkdirError ''slide/sub-01/dwi/sub-01_dwi_slices''),
         [MsgFound ''ds/sub-01/dwi/sub-01_dwi.nii.gz''],
         {''slide'', ''slide/sub-01'', ''slide/sub-01/dwi''})"
    using m by (simp add: process_file_def Let_def f j seq_def emit_def mk)
  have run: "process_dataset env_blocked ''ds'' ''slide'' {} =
       (Some (MkdirError ''slide/sub-01/dwi/sub-01_dwi_slices''),
        [MsgStart ''ds'', MsgOutput ''slide'', MsgFound ''ds/sub-01/dwi/sub-01_dwi.nii.gz''],
        {''slide'', ''slide/sub-01'', ''slide/sub-01/dwi''})"
    by (simp add: process_dataset_def d w p1 p2 seq_def emit_def skip_def)
  from m(1,2) run show ?thesis by simp
qed

section \<open>Running a command again\<close>

lemma replaysI:
  assumes "\<And>s r ev s'. c s = (r, ev, s') \<Longrightarrow> s \<subseteq> s'"
    and "\<And>s r ev s' a. c s = (r, ev, s') \<Longrightarrow> a \<in> s' \<Longrightarrow> a \<notin> s \<Longrightarrow> \<not> mkdir_fails env a"
    and "\<And>s r ev s' W. c s = (r, ev, s') \<Longrightarrow> s' \<subseteq> W
           \<Longrightarrow> \<forall>a \<in> W - s. \<not> mkdir_fails env a \<Longrightarrow> c W = (r, ev, W)"
  shows "replays env c"
  unfolding replays_def using assms by blast

lemma replays_grows: "replays env c \<Longrightarrow> c s = (r, ev, s') \<Longrightarrow> s \<subseteq> s'"
  unfolding replays_def by blast

lemma replays_new: "replays env c \<Longrightarrow> c s = (r, ev, s') \<Longrightarrow> a \<in> s' \<Longrightarrow> a \<notin> s
    \<Longrightarrow> \<not> mkdir_fails env a"
  unfolding replays_def by blast

lemma replays_again: "replays env c \<Longrightarrow> c s = (r, ev, s') \<Longrightarrow> s' \<subseteq> W
    \<Longrightarrow> \<forall>a \<in> W - s. \<not> mkdir_fails env a \<Longrightarrow> c W = (r, ev, W)"
  unfolding replays_def by blast

lemma replays_const:
  assumes "\<And>s. c s = (r0, ev0, s)"
  shows "replays env c"
  by (rule replaysI) (simp_all add: assms)

lemma replays_skip: "replays env skip"
  by (rule replays_const) (simp add: skip_def)

lemma replays_raise: "replays env (raise e)"
  by (rule replays_const) (simp add: raise_def)

lemma replays_emit: "replays env (emit ev)"
  by (rule replays_const) (simp add: emit_def)

lemma replays_save: "replays env (save env p img)"
proof (cases "save_fails env p")
  case True
  then show ?thesis by (intro replays_const [of _ "Some (SaveError p)" "[]"]) (simp add: save_def)
next
  case False
  then show ?thesis by (intro replays_const [of _ None "[Saved p img]"]) (simp add: save_def)
qed

lemma replays_seq:
  assumes r1: "replays env c1" and r2: "replays env c2"
  shows "replays env (seq c1 c2)"
proof (rule replaysI)
  fix s r ev s'
  assume run: "seq c1 c2 s = (r, ev, s')"
  obtain q1 ev1 s1 where c1: "c1 s = (q1, ev1, s1)" by (cases "c1 s") auto
  obtain q2 ev2 s2 where c2: "c2 s1 = (q2, ev2, s2)" by (cases "c2 s1") auto
  have g1: "s \<subseteq> s1" by (rule replays_grows [OF r1 c1])
  have g2: "s1 \<subseteq> s2" by (rule replays_grows [OF r2 c2])
  have res: "(q1 \<noteq> None \<and> r = q1 \<and> ev = ev1 \<and> s' = s1)
      \<or> (q1 = None \<and> r = q2 \<and> ev = ev1 @ ev2 \<and> s' = s2)"
    using run c1 c2 by (cases q1) (auto simp: seq_def)
  show "s \<subseteq> s'" using res g1 g2 by auto
  {
    fix a assume a: "a \<in> s'" "a \<notin> s"
    show "\<not> mkdir_fails env a"
    proof (cases "a \<in> s1")
      case True
      then show ?thesis using replays_new [OF r1 c1] a by blast
    next
      case False
      with a res have "a \<in> s2" by auto
      then show ?thesis using replays_new [OF r2 c2] False by blast
    qed
  }
  {
    fix W assume W: "s' \<subseteq> W" "\<forall>a \<in> W - s. \<not> mkdir_fails env a"
    from res show "seq c1 c2 W = (r, ev, W)"
    proof
      assume f: "q1 \<noteq> None \<and> r = q1 \<and> ev = ev1 \<and> s' = s1"
      then have "c1 W = (q1, ev1, W)" using replays_again [OF r1 c1] W by blast
      with f show ?thesis by (auto simp: seq_def)
    next
      assume f: "q1 = None \<and> r = q2 \<and> ev = ev1 @ ev2 \<and> s' = s2"
      have "s1 \<subseteq> W" using f g2 W by auto
      then have a1: "c1 W = (q1, ev1, W)" using replays_again [OF r1 c1] W by blast
      have "\<forall>a \<in> W - s1. \<not> mkdir_fails env a" using W g1 by auto
      then have a2: "c2 W = (q2, ev2, W)" using replays_again [OF r2 c2] W f by blast
      from a1 a2 f show ?thesis by (simp add: seq_def)
    qed
  }
qed

lemma replays_foreach:
  assumes "\<And>x. x \<in> set xs \<Longrightarrow> replays env (body x)"
  shows "replays env (foreach xs body)"
  using assms by (induction xs) (simp_all add: replays_skip replays_seq)

lemma replays_try_except:
  assumes r1: "replays env c" and r2: "\<And>e. replays env (handler e)"
  shows "replays env (try_except c handler)"
  unfolding replays_def
proof (intro allI impI)
  fix s r ev s'
  assume run: "try_except c handler s = (r, ev, s')"
  obtain q1 ev1 s1 where c1: "c s = (q1, ev1, s1)" by (cases "c s") auto
  have g1: "s \<subseteq> s1" by (rule replays_grows [OF r1 c1])
  show "s \<subseteq> s' \<and> (\<forall>a \<in> s' - s. \<not> mkdir_fails env a)
      \<and> (\<forall>W. s' \<subseteq> W \<and> (\<forall>a \<in> W - s. \<not> mkdir_fails env a)
             \<longrightarrow> try_except c handler W = (r, ev, W))"
  proof (cases q1)
    case None
    with run c1 have e: "r = None" "ev = ev1" "s' = s1" by (simp_all add: try_except_def)
    have "try_except c handler W = (r, ev, W)"
      if "s' \<subseteq> W" "\<forall>a \<in> W - s. \<not> mkdir_fails env a" for W
      using replays_again [OF r1 c1, of W] that e None by (simp add: try_except_def)
    then show ?thesis using e g1 replays_new [OF r1 c1] by blast
  next
    case (Some x)
    obtain q2 ev2 s2 where h: "handler x s1 = (q2, ev2, s2)" by (cases "handler x s1") auto
    have g2: "s1 \<subseteq> s2" by (rule replays_grows [OF r2 h])
    from run c1 Some h have e: "r = q2" "ev = ev1 @ ev2" "s' = s2"
      by (simp_all add: try_except_def)
    have again: "try_except c handler W = (r, ev, W)"
      if W: "s' \<subseteq> W" "\<forall>a \<in> W - s. \<not> mkdir_fails env a" for W
    proof -
      have "s1 \<subseteq> W" using e g2 W by auto
      then have a1: "c W = (q1, ev1, W)" using replays_again [OF r1 c1] W by blast
      have "\<forall>a \<in> W - s1. \<not> mkdir_fails env a" using W g1 by auto
      then have a2: "handler x W = (q2, ev2, W)" using replays_again [OF r2 h] W e by blast
      from a1 a2 Some e show ?thesis by (simp add: try_except_def)
    qed
    have new: "\<not> mkdir_fails env a" if "a \<in> s'" "a \<notin> s" for a
    proof (cases "a \<in> s1")
      case True
      then show ?thesis using replays_new [OF r1 c1] that by blast
    next
      case False
      then show ?thesis using replays_new [OF r2 h] that e by blast
    qed
    show ?thesis using e g1 g2 again new by blast
  qed
qed

lemma replays_mkdir_missing:
  "replays env (\<lambda>s. if a \<in> s then skip s else os_mkdir env a s)"
  unfolding replays_def
  by (auto simp: skip_def os_mkdir_def split: if_splits)

lemma replays_mkdir_exist_ok:
  "replays env (\<lambda>s. case os_mkdir env name s of
                 (Some e, ev, s') \<Rightarrow>
                   if \<not> True \<or> name \<notin> s' then (Some e, ev, s') else (None, ev, s')
               | (None, ev, s') \<Rightarrow> (None, ev, s'))"
  unfolding replays_def
  by (auto simp: os_mkdir_def split: if_splits)

lemma replays_makedirs: "replays env (makedirs env name True)"
  unfolding makedirs_def
  by (intro replays_seq replays_foreach replays_mkdir_missing replays_mkdir_exist_ok)

lemma replays_slice_plane: "replays env (slice_plane env base img plane)"
  unfolding slice_plane_def Let_def
  by (intro replays_seq replays_makedirs)
     (simp add: replays_foreach replays_save replays_skip)

lemma replays_slice_image: "replays env (slice_image env input_path base planes)"
proof -
  have body: "replays env (slice_image_body env input_path base planes)"
    unfolding slice_image_body_def
    by (auto split: sum.splits
        intro!: replays_raise replays_seq replays_foreach replays_slice_plane replays_emit)
  show ?thesis
    unfolding slice_image_def by (intro replays_try_except body replays_emit)
qed

lemma replays_process_file:
  "replays env (process_file env input_root output_root root_dir filename)"
  unfolding process_file_def Let_def
  by (auto intro!: replays_seq replays_emit replays_makedirs replays_slice_image replays_skip)

lemma replays_process_dataset: "replays env (process_dataset env input_root output_root)"
  unfolding process_dataset_def
  by (auto intro!: replays_seq replays_emit replays_foreach replays_process_file)

section \<open>The files after a run\<close>

lemma apply_saves_map_add: "apply_saves ev fm = fm ++ apply_saves ev Map.empty"
proof (induction ev arbitrary: fm)
  case Nil
  show ?case by simp
next
  case (Cons e ev)
  show ?case
  proof (cases e)
    case (Saved p img)
    have one: "apply_saves ev (fm(p \<mapsto> img)) = fm(p \<mapsto> img) ++ apply_saves ev Map.empty"
      by (rule Cons)
    have two: "apply_saves ev (Map.empty(p \<mapsto> img))
        = Map.empty(p \<mapsto> img) ++ apply_saves ev Map.empty"
      by (rule Cons)
    have three: "fm(p \<mapsto> img) = fm ++ Map.empty(p \<mapsto> img)" by simp
    have "apply_saves (e # ev) fm = apply_saves ev (fm(p \<mapsto> img))"
      unfolding Saved by (simp only: apply_saves.simps)
    also have "\<dots> = (fm ++ Map.empty(p \<mapsto> img)) ++ apply_saves ev Map.empty"
      unfolding one by (simp only: three [symmetric])
    also have "\<dots> = fm ++ (Map.empty(p \<mapsto> img) ++ apply_saves ev Map.empty)"
      by (simp only: map_add_assoc)
    also have "\<dots> = fm ++ apply_saves ev (Map.empty(p \<mapsto> img))"
      by (simp only: two)
    also have "\<dots> = fm ++ apply_saves (e # ev) Map.empty"
      unfolding Saved by (simp only: apply_saves.simps)
    finally show ?thesis .
  qed (simp_all add: Cons [of fm])
qed

lemma map_add_twice: "(m ++ a) ++ a = m ++ a"
  by (rule ext) (simp add: map_add_def split: option.splits)

lemma apply_saves_twice: "apply_saves ev (apply_saves ev fm) = apply_saves ev fm"
proof -
  have "apply_saves ev (apply_saves ev fm) = apply_saves ev fm ++ apply_saves ev Map.empty"
    by (rule apply_saves_map_add)
  also have "\<dots> = (fm ++ apply_saves ev Map.empty) ++ apply_saves ev Map.empty"
    using apply_saves_map_add [of ev fm] by simp
  also have "\<dots> = fm ++ apply_saves ev Map.empty"
    by (rule map_add_twice)
  also have "\<dots> = apply_saves ev fm"
    by (rule apply_saves_map_add [symmetric])
  finally show ?thesis .
qed

section \<open>Existing directories\<close>

lemma mkdir_missing_error:
  "foreach as (\<lambda>a s. if a \<in> s then skip s else os_mkdir env a s) s = (Some e, ev, s')
     \<Longrightarrow> \<exists>a. e = MkdirError a"
proof (induction as arbitrary: s ev)
  case Nil
  then show ?case by (simp add: skip_def)
next
  case (Cons a as)
  show ?case
  proof (cases "a \<in> s \<or> \<not> mkdir_fails env a")
    case True
    then have h: "(if a \<in> s then skip s else os_mkdir env a s) = (None, [], insert a s)"
      by (auto simp: skip_def os_mkdir_def insert_absorb)
    obtain r2 ev2 s2 where t: "foreach as (\<lambda>a s. if a \<in> s then skip s else os_mkdir env a s)
        (insert a s) = (r2, ev2, s2)"
      by (cases "foreach as (\<lambda>a s. if a \<in> s then skip s else os_mkdir env a s) (insert a s)")
        auto
    from Cons.prems h t
    have "foreach as (\<lambda>a s. if a \<in> s then skip s else os_mkdir env a s) (insert a s)
        = (Some e, ev, s')"
      by (simp add: seq_def)
    then show ?thesis by (rule Cons.IH)
  next
    case False
    then have "(if a \<in> s then skip s else os_mkdir env a s) = (Some (MkdirError a), [], s)"
      by (simp add: os_mkdir_def)
    with Cons.prems have "e = MkdirError a" by (auto simp: seq_def)
    then show ?thesis by blast
  qed
qed

lemma makedirs_exist_ok_error:
  assumes "makedirs env name True s = (Some e, ev, s')"
  shows "\<exists>a. e = MkdirError a"
proof -
  obtain r1 ev1 s1 where f: "foreach (ancestors name)
      (\<lambda>a s. if a \<in> s then skip s else os_mkdir env a s) s = (r1, ev1, s1)"
    by (cases "foreach (ancestors name)
      (\<lambda>a s. if a \<in> s then skip s else os_mkdir env a s) s") auto
  show ?thesis
  proof (cases r1)
    case None
    with assms f show ?thesis
      by (auto simp: makedirs_def seq_def os_mkdir_def split: if_splits)
  next
    case (Some x)
    with assms f have "x = e" by (simp add: makedirs_def seq_def)
    with mkdir_missing_error [of "ancestors name" env s x ev1 s1] f Some show ?thesis by simp
  qed
qed

text \<open>Without \<open>exist_ok\<close> an existing directory is an error: the flag is what line 39 and
  line 109 rely on.\<close>

lemma makedirs_without_exist_ok:
  assumes "name \<in> s"
  shows "fst (makedirs env name False s) \<noteq> None"
proof -
  obtain r1 ev1 s1 where f: "foreach (ancestors name)
      (\<lambda>a s. if a \<in> s then skip s else os_mkdir env a s) s = (r1, ev1, s1)"
    by (cases "foreach (ancestors name)
      (\<lambda>a s. if a \<in> s then skip s else os_mkdir env a s) s") auto
  have "s \<subseteq> s1"
    using replays_grows [OF replays_foreach [of "ancestors name" env
        "\<lambda>a s. if a \<in> s then skip s else os_mkdir env a s"] f]
    by (simp add: replays_mkdir_missing)
  with assms have "name \<in> s1" by auto
  with f show ?thesis
    by (cases r1) (simp_all add: makedirs_def seq_def os_mkdir_def)
qed

text \<open>
  Claim C9. Whatever the first run of process_dataset did (its result, its events, the
  directories \<open>W\<close> that exist after it), a second run on the same input and output, with
  the directories of the first run in place, does exactly the same, creates nothing new,
  and leaves every file with the content the first run gave it. Creating a directory again
  gives the same result and changes nothing, and \<open>exist_ok\<close> never reports that a
  directory exists.
\<close>

theorem second_run_identical:
  "(process_dataset env input_root output_root s = (r, ev, W) \<longrightarrow>
       process_dataset env input_root output_root W = (r, ev, W)
     \<and> apply_saves ev (apply_saves ev files) = apply_saves ev files)
   \<and> (makedirs env name True s = (r0, ev0, s0) \<longrightarrow> makedirs env name True s0 = (r0, ev0, s0))
   \<and> (\<forall>p. fst (makedirs env name True s) \<noteq> Some (DirExistsError p))
   \<and> (name \<in> s \<longrightarrow> makedirs env name True s = (None, [], s)
                     \<or> (\<exists>a. a \<notin> s \<and> a \<in> set (ancestors name)))"
proof -
  have run: "process_dataset env input_root output_root W = (r, ev, W)"
    if h: "process_dataset env input_root output_root s = (r, ev, W)"
  proof -
    have new: "\<forall>a \<in> W - s. \<not> mkdir_fails env a"
      using replays_new [OF replays_process_dataset h] by blast
    show ?thesis by (rule replays_again [OF replays_process_dataset h subset_refl new])
  qed
  have mk: "makedirs env name True s0 = (r0, ev0, s0)"
    if h: "makedirs env name True s = (r0, ev0, s0)"
  proof -
    have new: "\<forall>a \<in> s0 - s. \<not> mkdir_fails env a"
      using replays_new [OF replays_makedirs h] by blast
    show ?thesis by (rule replays_again [OF replays_makedirs h subset_refl new])
  qed
  have nofe: "fst (makedirs env name True s) \<noteq> Some (DirExistsError p)" for p
  proof
    assume a: "fst (makedirs env name True s) = Some (DirExistsError p)"
    then obtain ev1 s1 where "makedirs env name True s = (Some (DirExistsError p), ev1, s1)"
      by (cases "makedirs env name True s") auto
    from makedirs_exist_ok_error [OF this] show False by simp
  qed
  have ex: "makedirs env name True s = (None, [], s) \<or> (\<exists>a. a \<notin> s \<and> a \<in> set (ancestors name))"
    if n: "name \<in> s"
  proof (cases "set (ancestors name) \<subseteq> s")
    case True
    have "foreach as (\<lambda>a s. if a \<in> s then skip s else os_mkdir env a s) s = (None, [], s)"
      if "set as \<subseteq> s" for as
      using that by (induction as) (simp_all add: skip_def seq_def)
    from this [OF True] n have "makedirs env name True s = (None, [], s)"
      by (simp add: makedirs_def seq_def os_mkdir_def)
    then show ?thesis by simp
  next
    case False
    then show ?thesis by blast
  qed
  have c1: "process_dataset env input_root output_root s = (r, ev, W) \<longrightarrow>
       process_dataset env input_root output_root W = (r, ev, W)
     \<and> apply_saves ev (apply_saves ev files) = apply_saves ev files"
    using run apply_saves_twice [of ev files] by blast
  have c2: "makedirs env name True s = (r0, ev0, s0) \<longrightarrow>
      makedirs env name True s0 = (r0, ev0, s0)"
    using mk by blast
  have c3: "\<forall>p. fst (makedirs env name True s) \<noteq> Some (DirExistsError p)"
    using nofe by blast
  have c4: "name \<in> s \<longrightarrow> makedirs env name True s = (None, [], s)
                     \<or> (\<exists>a. a \<notin> s \<and> a \<in> set (ancestors name))"
    using ex by blast
  show ?thesis
    by (rule conjI [OF c1 conjI [OF c2 conjI [OF c3 c4]]])
qed

theorem second_run_identical_witness:
  "fst (process_dataset env_ok ''ds'' ''slide'' {}) = None
   \<and> process_dataset env_ok ''ds'' ''slide'' (snd (snd (process_dataset env_ok ''ds'' ''slide'' {})))
       = process_dataset env_ok ''ds'' ''slide'' {}
   \<and> makedirs env_ok ''slide/sub-01'' True {} = (None, [], {''slide'', ''slide/sub-01''})
   \<and> makedirs env_ok ''slide/sub-01'' True {''slide'', ''slide/sub-01''}
       = (None, [], {''slide'', ''slide/sub-01''})"
proof -
  obtain r ev W where h: "process_dataset env_ok ''ds'' ''slide'' {} = (r, ev, W)"
    by (cases "process_dataset env_ok ''ds'' ''slide'' {}") auto
  have d: "os_isdir env_ok ''ds''" by (simp add: env_ok_def)
  have ok: "walker_dirs_ok env_ok ''ds'' ''slide''"
    by (simp add: walker_dirs_ok_def env_ok_def list_all_iff)
  have r: "r = None"
  proof -
    have "fst (foreach (os_walk env_ok ''ds'')
               (\<lambda>(root_dir, files). foreach files (process_file env_ok ''ds'' ''slide'' root_dir)) {})
           = None"
      using walk_all_directories [OF ok, of "{}"] by simp
    then obtain ev1 s1 where "foreach (os_walk env_ok ''ds'')
               (\<lambda>(root_dir, files). foreach files (process_file env_ok ''ds'' ''slide'' root_dir)) {}
           = (None, ev1, s1)"
      by (cases "foreach (os_walk env_ok ''ds'')
               (\<lambda>(root_dir, files). foreach files (process_file env_ok ''ds'' ''slide'' root_dir)) {}")
        auto
    with h d show ?thesis by (simp add: process_dataset_def seq_def emit_def)
  qed
  have a: "ancestors ''slide/sub-01'' = [''slide'']" by code_simp
  have m: "makedirs env_ok ''slide/sub-01'' True {} = (None, [], {''slide'', ''slide/sub-01''})"
    unfolding makedirs_def a
    by (simp add: seq_def skip_def os_mkdir_def env_ok_def insert_commute)
  note t = second_run_identical [of env_ok "''ds''" "''slide''" "{}" r ev W Map.empty
      "''slide/sub-01''" None "[]" "{''slide'', ''slide/sub-01''}"]
  have one: "process_dataset env_ok ''ds'' ''slide'' W = (r, ev, W)"
    by (rule conjunct1 [OF mp [OF conjunct1 [OF t] h]])
  have two: "makedirs env_ok ''slide/sub-01'' True {''slide'', ''slide/sub-01''}
      = (None, [], {''slide'', ''slide/sub-01''})"
    by (rule mp [OF conjunct1 [OF conjunct2 [OF t]] m])
  have g1: "fst (process_dataset env_ok ''ds'' ''slide'' {}) = None"
    unfolding h using r by simp
  have g2: "process_dataset env_ok ''ds'' ''slide''
      (snd (snd (process_dataset env_ok ''ds'' ''slide'' {})))
       = process_dataset env_ok ''ds'' ''slide'' {}"
    unfolding h snd_conv by (rule one)
  show ?thesis
    by (rule conjI [OF g1 conjI [OF g2 conjI [OF m two]]])
qed

end
